theory Spec2Isabelle
  imports Main
begin

section \<open>YAML nodes\<close>

text \<open>
  The evaluator reads three fields of the YAML library's node: its kind, its string value
  and its ordered list of children; the tag is kept for the filters. The kind is the
  library's enumeration together with the zero value of an uninitialised node, which
  \<open>identity\<close> tests for. The source passes nodes by address. Here a node is its value
  (the subtree below it), so every child is a node and none is nil; the lists returned
  by the matchers keep order and repetitions as the slices of the source do.
\<close>

datatype kind =
  KindZero | DocumentNode | SequenceNode | MappingNode | ScalarNode | AliasNode

datatype node = Node (Kind: kind) (Value: string) (Tag: string) (Content: "node list")

section \<open>Panics, sequences and paths\<close>

text \<open>
  Evaluation has no error result, but three run-time panics are possible in the code of
  the matchers: an index beyond the end of \<open>Content\<close>, the explicit panic on an error
  of the slice parser, and a call through a nil path. Every matcher body runs when it is
  called and \<open>compose\<close> ranges over its whole input, so a sequence is modelled as the
  list it yields, or the panic raised while producing it. Three names of the source are
  taken in the logic: the matcher \<open>empty\<close> is \<open>empty_seq\<close> here, the method
  \<open>find\<close> of a path is \<open>find_nodes\<close>, and the field \<open>typ\<close> of a lexeme is
  \<open>ltyp\<close>.
\<close>

datatype panic = IndexOutOfRange | SlicePanic string | NilDereference

type_synonym seq = "panic + node list"

type_synonym matcher = "node \<Rightarrow> node \<Rightarrow> seq"

datatype Path = Path (f: matcher)

text \<open>A value of type \<open>Path option\<close> is a pointer to a path; \<open>None\<close> is nil.\<close>

definition callf :: "Path option \<Rightarrow> node \<Rightarrow> node \<Rightarrow> seq" where
  "callf p node root = (case p of None \<Rightarrow> Inl NilDereference | Some q \<Rightarrow> f q node root)"

definition index :: "node list \<Rightarrow> nat \<Rightarrow> panic + node" where
  "index xs i = (if i < length xs then Inr (xs ! i) else Inl IndexOutOfRange)"

definition new :: "matcher \<Rightarrow> Path option" where
  "new g = Some (Path g)"

definition lift :: "node list \<Rightarrow> node list" where
  "lift nodes = nodes"

fun flatten :: "seq list \<Rightarrow> seq" where
  "flatten [] = Inr []"
| "flatten (Inl e # its) = Inl e"
| "flatten (Inr xs # its) = (case flatten its of Inl e \<Rightarrow> Inl e | Inr ys \<Rightarrow> Inr (xs @ ys))"

text \<open>
  \<open>compose\<close> calls the path on every node of its input, in order, and concatenates the
  results; the first call that panics ends the evaluation.
\<close>

fun compose :: "node list \<Rightarrow> Path option \<Rightarrow> node \<Rightarrow> seq" where
  "compose [] p root = Inr []"
| "compose (a # as) p root =
     (case callf p a root of
        Inl e \<Rightarrow> Inl e
      | Inr xs \<Rightarrow> (case compose as p root of Inl e \<Rightarrow> Inl e | Inr ys \<Rightarrow> Inr (xs @ ys)))"

definition identity :: matcher where
  "identity node root = (if Kind node = KindZero then Inr (lift []) else Inr (lift [node]))"

definition empty_seq :: matcher where
  "empty_seq node root = Inr (lift [])"

text \<open>
  \<open>recurse\<close> walks each node of its arguments: first the walk of the children, then
  the node. Its consumers range over the whole walk, so the exit it takes when the
  consumer stops is never taken.
\<close>

fun recurse :: "node list \<Rightarrow> node list" where
  "recurse [] = []"
| "recurse (Node k v t cs # ns) = recurse cs @ [Node k v t cs] @ recurse ns"

section \<open>Strings\<close>

text \<open>
  A string is the list of its runes, for text whose runes are below 256; the library
  functions of the source are written out for the separators and affixes the source
  passes to them, and \<open>isSpace\<close> holds of the white space in that range. The sentinel
  \<open>eof\<close> that \<open>balanced\<close> starts from is declared by the lexer; it is no rune of a
  string and is modelled by \<open>None\<close>.
\<close>

definition HasPrefix :: "string \<Rightarrow> string \<Rightarrow> bool" where
  "HasPrefix s p = (take (length p) s = p)"

definition HasSuffix :: "string \<Rightarrow> string \<Rightarrow> bool" where
  "HasSuffix s p = (length p \<le> length s \<and> drop (length s - length p) s = p)"

definition TrimPrefix :: "string \<Rightarrow> string \<Rightarrow> string" where
  "TrimPrefix s p = (if HasPrefix s p then drop (length p) s else s)"

definition TrimSuffix :: "string \<Rightarrow> string \<Rightarrow> string" where
  "TrimSuffix s p = (if HasSuffix s p then take (length s - length p) s else s)"

definition isSpace :: "char \<Rightarrow> bool" where
  "isSpace c = (c \<in> {CHR 0x09, CHR 0x0A, CHR 0x0B, CHR 0x0C, CHR 0x0D, CHR 0x20, CHR 0x85, CHR 0xA0})"

definition TrimSpace :: "string \<Rightarrow> string" where
  "TrimSpace s = rev (dropWhile isSpace (rev (dropWhile isSpace s)))"

fun Split :: "string \<Rightarrow> char \<Rightarrow> string list" where
  "Split [] sep = [[]]"
| "Split (x # xs) sep =
     (if x = sep then [] # Split xs sep
      else (case Split xs sep of [] \<Rightarrow> [[x]] | y # ys \<Rightarrow> (x # y) # ys))"

definition backslash :: char where
  "backslash = CHR 0x5C"

definition squote :: char where
  "squote = CHR 0x27"

definition dquote :: char where
  "dquote = CHR 0x22"

fun unescape_loop :: "string \<Rightarrow> string \<Rightarrow> bool \<Rightarrow> string" where
  "unescape_loop [] esc escaped = esc"
| "unescape_loop (r # raw) esc escaped =
     (if r = backslash
      then unescape_loop raw (if escaped then esc @ [r] else esc) (\<not> escaped)
      else unescape_loop raw (esc @ [r]) False)"

definition unescape :: "string \<Rightarrow> string" where
  "unescape raw = unescape_loop raw [] False"

fun balanced_loop :: "string \<Rightarrow> char \<Rightarrow> bool \<Rightarrow> char option \<Rightarrow> bool" where
  "balanced_loop [] q bal prev = bal"
| "balanced_loop (r # c) q bal prev =
     (if r = q
      then (if prev = Some backslash then balanced_loop c q bal (Some r)
            else balanced_loop c q (\<not> bal) (Some r))
      else balanced_loop c q bal (Some r))"

definition balanced :: "string \<Rightarrow> char \<Rightarrow> bool" where
  "balanced c q = balanced_loop c q True None"

fun reconstitute :: "string list \<Rightarrow> string list \<Rightarrow> string \<Rightarrow> string list \<times> string" where
  "reconstitute [] children accum = (children, accum)"
| "reconstitute (c # s) children accum =
     (if balanced c squote \<and> balanced c dquote
      then (if accum \<noteq> [] then reconstitute s children (accum @ '','' @ c)
            else reconstitute s (children @ [c]) [])
      else (if accum = [] then reconstitute s children c
            else reconstitute s (children @ [accum @ '','' @ c]) []))"

definition unquote :: "string \<Rightarrow> string" where
  "unquote c0 =
     (let c = TrimSpace c0;
          c' = (if HasPrefix c [squote] then TrimSuffix (TrimPrefix c [squote]) [squote]
                else TrimSuffix (TrimPrefix c [dquote]) [dquote])
      in unescape c')"

definition bracketChildNames :: "string \<Rightarrow> string list" where
  "bracketChildNames childNames =
     (let (children, accum) = reconstitute (Split childNames CHR '','') [] [];
          children' = (if accum \<noteq> [] then children @ [accum] else children)
      in map unquote children')"

section \<open>Matchers\<close>

text \<open>
  \<open>range xs\<close> is the list of pairs a \<open>for i, n := range xs\<close> loop visits. A loop
  that returns at its first match is \<open>find\<close> on that list; a loop that appends is a
  \<open>filter\<close> and a \<open>map\<close>. The two collaborators that the matchers call and that
  are defined in other files of the package are parameters: \<open>sl\<close> is the slice parser
  (a subscript and a length to an error message or a list of indices) and a filter is
  the predicate on a node and the root that the filter compiler returns for the lexemes
  of a filter; \<open>filterThen\<close> and \<open>recursiveFilterThen\<close> receive that predicate,
  which the source computes from the lexemes in their first line.
\<close>

type_synonym slicer = "string \<Rightarrow> int \<Rightarrow> string + int list"

type_synonym filter = "node \<Rightarrow> node \<Rightarrow> bool"

definition range :: "node list \<Rightarrow> (nat \<times> node) list" where
  "range xs = enumerate 0 xs"

fun collect :: "(panic + node) list \<Rightarrow> panic + node list" where
  "collect [] = Inr []"
| "collect (Inl e # rs) = Inl e"
| "collect (Inr x # rs) = (case collect rs of Inl e \<Rightarrow> Inl e | Inr xs \<Rightarrow> Inr (x # xs))"

definition propertyNameChildThen :: "string \<Rightarrow> Path option \<Rightarrow> Path option" where
  "propertyNameChildThen childName0 p =
     (let childName = unescape childName0 in
      new (\<lambda>node root.
        if Kind node \<noteq> MappingNode then empty_seq node root
        else (case find (\<lambda>(i, n). i mod 2 = 0 \<and> Value n = childName) (range (Content node)) of
                Some (i, n) \<Rightarrow>
                  (case index (Content node) i of
                     Inl e \<Rightarrow> Inl e
                   | Inr c \<Rightarrow> compose (lift [c]) p root)
              | None \<Rightarrow> empty_seq node root)))"

definition propertyNameBracketChildThen :: "string \<Rightarrow> Path option \<Rightarrow> Path option" where
  "propertyNameBracketChildThen childNames p =
     (let unquotedChildren = bracketChildNames childNames in
      new (\<lambda>node root.
        if Kind node \<noteq> MappingNode then empty_seq node root
        else (case collect (concat (map (\<lambda>childName.
                      map (\<lambda>(i, n). index (Content node) i)
                        (filter (\<lambda>(i, n). i mod 2 = 0 \<and> Value n = childName)
                           (range (Content node))))
                    unquotedChildren)) of
                Inl e \<Rightarrow> Inl e
              | Inr its \<Rightarrow> compose its p root)))"

definition propertyNameArraySubscriptThen :: "string \<Rightarrow> Path option \<Rightarrow> Path option" where
  "propertyNameArraySubscriptThen subscript p =
     new (\<lambda>node root.
       if Kind node = MappingNode \<and> subscript = ''*''
       then flatten (map (\<lambda>(i, n). compose (lift [n]) p root)
                      (filter (\<lambda>(i, n). \<not> i mod 2 \<noteq> 0) (range (Content node))))
       else empty_seq node root)"

definition allChildrenThen :: "Path option \<Rightarrow> Path option" where
  "allChildrenThen p =
     new (\<lambda>node root.
       case Kind node of
         MappingNode \<Rightarrow>
           flatten (map (\<lambda>(i, n). compose (lift [n]) p root)
                     (filter (\<lambda>(i, n). \<not> i mod 2 = 0) (range (Content node))))
       | SequenceNode \<Rightarrow>
           flatten (map (\<lambda>i. case index (Content node) i of
                                 Inl e \<Rightarrow> Inl e
                               | Inr c \<Rightarrow> compose (lift [c]) p root)
                     [0 ..< length (Content node)])
       | _ \<Rightarrow> empty_seq node root)"

definition childThen :: "string \<Rightarrow> Path option \<Rightarrow> Path option" where
  "childThen childName0 p =
     (if childName0 = ''*'' then allChildrenThen p
      else
        let childName = unescape childName0 in
        new (\<lambda>node root.
          if Kind node \<noteq> MappingNode then empty_seq node root
          else (case find (\<lambda>(i, n). i mod 2 = 0 \<and> Value n = childName) (range (Content node)) of
                  Some (i, n) \<Rightarrow>
                    (case index (Content node) (i + 1) of
                       Inl e \<Rightarrow> Inl e
                     | Inr c \<Rightarrow> compose (lift [c]) p root)
                | None \<Rightarrow> empty_seq node root)))"

definition bracketChildThen :: "string \<Rightarrow> Path option \<Rightarrow> Path option" where
  "bracketChildThen childNames p =
     (let unquotedChildren = bracketChildNames childNames in
      new (\<lambda>node root.
        if Kind node \<noteq> MappingNode then empty_seq node root
        else (case collect (concat (map (\<lambda>childName.
                      map (\<lambda>(i, n). index (Content node) (i + 1))
                        (filter (\<lambda>(i, n). i mod 2 = 0 \<and> Value n = childName)
                           (range (Content node))))
                    unquotedChildren)) of
                Inl e \<Rightarrow> Inl e
              | Inr its \<Rightarrow> compose its p root)))"

definition arraySubscriptThen :: "slicer \<Rightarrow> string \<Rightarrow> Path option \<Rightarrow> Path option" where
  "arraySubscriptThen sl subscript p =
     new (\<lambda>node root.
       if Kind node = MappingNode \<and> subscript = ''*''
       then flatten (map (\<lambda>(i, n). compose (lift [n]) p root)
                      (filter (\<lambda>(i, n). \<not> i mod 2 = 0) (range (Content node))))
       else if Kind node \<noteq> SequenceNode then empty_seq node root
       else (case sl subscript (int (length (Content node))) of
               Inl err \<Rightarrow> Inl (SlicePanic err)
             | Inr indices \<Rightarrow>
                 flatten (map (\<lambda>s. compose (lift [Content node ! nat s]) p root)
                           (filter (\<lambda>s. s \<ge> 0 \<and> s < int (length (Content node))) indices))))"

definition filterThen :: "filter \<Rightarrow> Path option \<Rightarrow> Path option" where
  "filterThen flt p =
     new (\<lambda>node root.
       if Kind node = SequenceNode
       then flatten (map (\<lambda>c. compose (lift [c]) p root)
                      (filter (\<lambda>c. flt c root) (Content node)))
       else flatten (if flt node root then [compose (lift [node]) p root] else []))"

definition recursiveFilterThen :: "filter \<Rightarrow> Path option \<Rightarrow> Path option" where
  "recursiveFilterThen flt p =
     new (\<lambda>node root.
       flatten (if flt node root then [compose (lift [node]) p root] else []))"

section \<open>Lexemes and the path compiler\<close>

text \<open>
  The lexer is a collaborator of the compiler. The types of lexeme are the ones
  \<open>newPath\<close> switches on, followed by the kinds that only occur inside a filter; of a
  lexeme the compiler reads the type and the text. A run of the lexer is modelled by the
  list of lexemes it hands out, one per call of \<open>nextLexeme\<close>; once the list is used
  up the lexer answers with the end-of-input lexeme. \<open>nf\<close> stands for the filter
  compiler, from the lexemes of a filter to its predicate.
\<close>

datatype lexemeType =
  lexemeError | lexemeIdentity | lexemeEOF | lexemeRoot | lexemeDotChild
| lexemeUndottedChild | lexemeBracketChild | lexemeArraySubscript
| lexemeRecursiveDescent | lexemeFilterBegin | lexemeRecursiveFilterBegin
| lexemeFilterEnd | lexemePropertyName | lexemeBracketPropertyName
| lexemeArraySubscriptPropertyName
| lexemeFilterAt | lexemeFilterIntegerLiteral | lexemeFilterFloatLiteral
| lexemeFilterStringLiteral | lexemeFilterBooleanLiteral | lexemeFilterNullLiteral
| lexemeFilterRegularExpressionLiteral | lexemeFilterEquality | lexemeFilterInequality
| lexemeFilterLessThan | lexemeFilterLessThanOrEqual | lexemeFilterGreaterThan
| lexemeFilterGreaterThanOrEqual | lexemeFilterMatchesRegularExpression
| lexemeFilterAnd | lexemeFilterOr | lexemeFilterNot
| lexemeFilterOpenBracket | lexemeFilterCloseBracket

datatype lexeme = Lexeme (ltyp: lexemeType) (val: string)

text \<open>
  Modelled from the spec: the constant \<open>propertyName\<close> of the lexer, the \<open>~\<close> that
  follows a step to ask for the key instead of the value.
\<close>

definition propertyName :: string where
  "propertyName = ''~''"

text \<open>
  The loop of \<open>newPath\<close> that gathers the lexemes of a filter up to the end of the
  filter that closes nesting level one. It returns the error message, or the lexemes of
  the filter and the lexemes left for the rest of the path.
\<close>

fun filterLoop :: "lexeme list \<Rightarrow> lexeme list \<Rightarrow> int \<Rightarrow> string + (lexeme list \<times> lexeme list)" where
  "filterLoop [] filterLexemes filterNestingLevel = Inl ''missing end of filter''"
| "filterLoop (lx # l) filterLexemes filterNestingLevel =
     (case ltyp lx of
        lexemeFilterBegin \<Rightarrow> filterLoop l (filterLexemes @ [lx]) (filterNestingLevel + 1)
      | lexemeFilterEnd \<Rightarrow>
          (if filterNestingLevel - 1 = 0 then Inr (filterLexemes, l)
           else filterLoop l (filterLexemes @ [lx]) (filterNestingLevel - 1))
      | lexemeError \<Rightarrow> Inl (val lx)
      | lexemeEOF \<Rightarrow> Inl ''missing end of filter''
      | _ \<Rightarrow> filterLoop l (filterLexemes @ [lx]) filterNestingLevel)"

text \<open>
  The steps that differ only in the matcher they build share \<open>andThen\<close>: compile the rest
  of the path, hand an error on, otherwise build the matcher around the sub-path.
\<close>

definition andThen ::
  "Path option \<times> string option \<Rightarrow> (Path option \<Rightarrow> Path option) \<Rightarrow> Path option \<times> string option" where
  "andThen r build = (case r of (subPath, Some err) \<Rightarrow> (None, Some err)
                              | (subPath, None) \<Rightarrow> (build subPath, None))"

definition rootThen :: "Path option \<Rightarrow> Path option" where
  "rootThen subPath =
     new (\<lambda>node root.
       if Kind node = DocumentNode
       then (case index (Content node) 0 of
               Inl e \<Rightarrow> Inl e
             | Inr node' \<Rightarrow> compose (lift [node']) subPath root)
       else compose (lift [node]) subPath root)"

definition recursiveDescentThen :: "string \<Rightarrow> Path option \<Rightarrow> Path option" where
  "recursiveDescentThen childName subPath =
     (if childName = ''*''
      then new (\<lambda>node root. compose (recurse [node]) (allChildrenThen subPath) root)
      else if childName = []
      then new (\<lambda>node root. compose (recurse [node]) subPath root)
      else new (\<lambda>node root. compose (recurse [node]) (childThen childName subPath) root))"

function newPath :: "(lexeme list \<Rightarrow> filter) \<Rightarrow> slicer \<Rightarrow> lexeme list \<Rightarrow> Path option \<times> string option" where
  "newPath nf sl [] = (new identity, None)"
| "newPath nf sl (lx # l) =
     (case ltyp lx of
        lexemeError \<Rightarrow> (None, Some (val lx))
      | lexemeIdentity \<Rightarrow> (new identity, None)
      | lexemeEOF \<Rightarrow> (new identity, None)
      | lexemeRoot \<Rightarrow> andThen (newPath nf sl l) rootThen
      | lexemeRecursiveDescent \<Rightarrow>
          andThen (newPath nf sl l) (recursiveDescentThen (TrimPrefix (val lx) ''..''))
      | lexemeDotChild \<Rightarrow>
          andThen (newPath nf sl l) (childThen (TrimPrefix (val lx) ''.''))
      | lexemeUndottedChild \<Rightarrow>
          andThen (newPath nf sl l) (childThen (val lx))
      | lexemeBracketChild \<Rightarrow>
          andThen (newPath nf sl l)
            (bracketChildThen
               (TrimSpace (TrimSuffix (TrimPrefix (TrimSpace (val lx)) ''['') '']'')))
      | lexemeArraySubscript \<Rightarrow>
          andThen (newPath nf sl l)
            (arraySubscriptThen sl (TrimSuffix (TrimPrefix (val lx) ''['') '']''))
      | lexemeFilterBegin \<Rightarrow>
          (case filterLoop l [] 1 of
             Inl err \<Rightarrow> (None, Some err)
           | Inr (filterLexemes, l') \<Rightarrow>
               andThen (newPath nf sl l') (filterThen (nf filterLexemes)))
      | lexemeRecursiveFilterBegin \<Rightarrow>
          (case filterLoop l [] 1 of
             Inl err \<Rightarrow> (None, Some err)
           | Inr (filterLexemes, l') \<Rightarrow>
               andThen (newPath nf sl l') (recursiveFilterThen (nf filterLexemes)))
      | lexemePropertyName \<Rightarrow>
          andThen (newPath nf sl l)
            (propertyNameChildThen (TrimSuffix (TrimPrefix (val lx) ''.'') propertyName))
      | lexemeBracketPropertyName \<Rightarrow>
          andThen (newPath nf sl l)
            (propertyNameBracketChildThen
               (TrimSpace (TrimSuffix (TrimPrefix
                  (TrimSuffix (TrimSpace (val lx)) propertyName) ''['') '']'')))
      | lexemeArraySubscriptPropertyName \<Rightarrow>
          andThen (newPath nf sl l)
            (propertyNameArraySubscriptThen (TrimSuffix (TrimPrefix (val lx) ''['') '']~''))
      | _ \<Rightarrow> (None, Some ''invalid path syntax''))"
  by pat_completeness auto
termination
proof -
  have rest: "length r < length l" if "filterLoop l acc n = Inr (fl, r)" for l acc n fl r
    using that
    by (induction l acc n rule: filterLoop.induct)
       (auto split: lexemeType.splits if_splits)
  show ?thesis
    by (relation "measure (\<lambda>(nf, sl, l). length l)") (auto dest: rest)
qed

definition NewPath :: "(string \<Rightarrow> lexeme list) \<Rightarrow> (lexeme list \<Rightarrow> filter) \<Rightarrow> slicer \<Rightarrow> string \<Rightarrow> Path option \<times> string option" where
  "NewPath lexer nf sl path = newPath nf sl (lexer path)"

definition find_nodes :: "Path option \<Rightarrow> node \<Rightarrow> node \<Rightarrow> seq" where
  "find_nodes p node root = callf p node root"

definition Find :: "Path option \<Rightarrow> node \<Rightarrow> panic + (node list \<times> string option)" where
  "Find p node = (case find_nodes p node node of Inl e \<Rightarrow> Inl e | Inr ns \<Rightarrow> Inr (ns, None))"

section \<open>Notions the properties are stated with\<close>

text \<open>
  The two results of the compiler form a definite outcome when exactly one of them is
  set: a path and no error, or no path and an error.
\<close>

definition definite :: "Path option \<times> string option \<Rightarrow> bool" where
  "definite r = ((\<exists>p. r = (Some p, None)) \<or> (\<exists>e. r = (None, Some e)))"

text \<open>
  The children of a Mapping node alternate between keys and values: \<open>keyNodes\<close> are
  the children at the even indices 0, 2, 4, ... and \<open>valueNodes\<close> those at the odd
  indices 1, 3, 5, ... (lemma \<open>keyNodes_valueNodes_nth\<close> below).
\<close>

fun keyNodes :: "node list \<Rightarrow> node list" and valueNodes :: "node list \<Rightarrow> node list" where
  "keyNodes [] = []"
| "keyNodes (k # cs) = k # valueNodes cs"
| "valueNodes [] = []"
| "valueNodes (k # cs) = keyNodes cs"

text \<open>
  The entries of a mapping in document order, each key with the value that follows it,
  and the values of the entries whose key is spelled \<open>name\<close>.
\<close>

fun pairs :: "node list \<Rightarrow> (node \<times> node) list" where
  "pairs (k # v # cs) = (k, v) # pairs cs"
| "pairs cs = []"

definition valuesFor :: "string \<Rightarrow> node list \<Rightarrow> node list" where
  "valuesFor name cs = map snd (filter (\<lambda>(k, v). Value k = name) (pairs cs))"

text \<open>
  The text of a list of names as a bracket child step writes them, every name between
  single quotes and a comma after each name but the last. A name is plain when it holds
  no quote, no backslash and no comma, so that it is written without an escape.
\<close>

definition plainName :: "string \<Rightarrow> bool" where
  "plainName n = (\<forall>c \<in> set n. c \<noteq> squote \<and> c \<noteq> dquote \<and> c \<noteq> backslash \<and> c \<noteq> CHR '','')"

fun writtenNames :: "string list \<Rightarrow> string" where
  "writtenNames [] = []"
| "writtenNames [n] = squote # n @ [squote]"
| "writtenNames (n # m # ns) = squote # n @ [squote] @ CHR '','' # writtenNames (m # ns)"

text \<open>
  The post-order walk of a tree: the walks of the children from left to right, then the
  node. \<open>child_rel\<close> relates a node to its parent, so its transitive closure relates a
  transitive descendant to its ancestor.
\<close>

fun postorder :: "node \<Rightarrow> node list" where
  "postorder (Node k v t cs) = concat (map postorder cs) @ [Node k v t cs]"

definition child_rel :: "(node \<times> node) set" where
  "child_rel = {(c, p). c \<in> set (Content p)}"

text \<open>
  What a node hands to the step \<open>*\<close>: the values of a Mapping, the elements of a
  Sequence, nothing for the other kinds.
\<close>

definition childrenOf :: "node \<Rightarrow> node list" where
  "childrenOf p = (case Kind p of MappingNode \<Rightarrow> valueNodes (Content p)
                   | SequenceNode \<Rightarrow> Content p | _ \<Rightarrow> [])"

section \<open>Comparison filters\<close>

text \<open>
  Modelled from the spec: the evaluation of a comparison in a filter, which belongs to
  the filter evaluator, a file of the package other than the one modelled above. By
  section 4.3 each side of a comparison is
  lifted to a list of values: a literal becomes a singleton, a path query becomes the
  list of the typed values of the nodes its sub-path finds, from the context node for
  \<open>@\<close> and from the root for \<open>$\<close>. The filter is true iff the list on the left is
  non-empty, the list on the right is non-empty, and the concrete comparison holds for
  every value of the left list and every value of the right list. The typed value of a
  node and the concrete comparison of two values are parameters, and a sub-path is the
  function from a node and the root to the nodes it finds.
\<close>

datatype origin = At | Root

datatype 'v filterTerm = Literal 'v | PathQuery origin "node \<Rightarrow> node \<Rightarrow> node list"

fun liftTerm :: "(node \<Rightarrow> 'v) \<Rightarrow> 'v filterTerm \<Rightarrow> node \<Rightarrow> node \<Rightarrow> 'v list" where
  "liftTerm typedValue (Literal v) context root = [v]"
| "liftTerm typedValue (PathQuery At sub) context root = map typedValue (sub context root)"
| "liftTerm typedValue (PathQuery Root sub) context root = map typedValue (sub root root)"

definition comparisonFilter ::
  "('v \<Rightarrow> 'v \<Rightarrow> bool) \<Rightarrow> (node \<Rightarrow> 'v) \<Rightarrow> 'v filterTerm \<Rightarrow> 'v filterTerm \<Rightarrow> filter" where
  "comparisonFilter compare typedValue l r context root =
     (let left = liftTerm typedValue l context root;
          right = liftTerm typedValue r context root
      in left \<noteq> [] \<and> right \<noteq> [] \<and> list_all (\<lambda>x. list_all (\<lambda>y. compare x y) right) left)"

section \<open>The slice parser and the subscripts of the lexer\<close>

text \<open>
  Modelled from the spec: the slice parser of section 4.2, a file of the package other
  than the one modelled above. A subscript is a union of members separated by commas, materialised and
  concatenated in order. A member is \<open>*\<close> (all indices), a single integer (counted from
  the end when negative, dropped when out of range) or a range \<open>a:b\<close> or \<open>a:b:s\<close>
  whose parts may be omitted: the step defaults to 1, the start to 0 for a positive step
  and to \<open>L - 1\<close> otherwise, the end to \<open>L\<close> for a positive step and to
  \<open>- L - 1\<close> otherwise; negative bounds are normalised by adding \<open>L\<close> and clamped to
  \<open>[0, L]\<close> for a positive step and to \<open>[-1, L - 1]\<close> for a negative one; a step of
  zero is an error; the indices are \<open>a, a + s, a + 2s, ...\<close> while below the end for a
  positive step and while above it for a negative one. A member that is none of these is
  an invalid slice. The spec does not give the text of the error messages.
\<close>

definition isDigit :: "char \<Rightarrow> bool" where
  "isDigit c = (c \<in> set ''0123456789'')"

definition digitValue :: "char \<Rightarrow> nat" where
  "digitValue c = of_char c - of_char CHR ''0''"

definition digitsValue :: "string \<Rightarrow> nat" where
  "digitsValue ds = foldl (\<lambda>acc c. 10 * acc + digitValue c) 0 ds"

definition parseDigits :: "string \<Rightarrow> nat option" where
  "parseDigits ds = (if ds \<noteq> [] \<and> list_all isDigit ds then Some (digitsValue ds) else None)"

fun parseInt :: "string \<Rightarrow> int option" where
  "parseInt [] = None"
| "parseInt (c # ds) =
     (if c = CHR ''-'' then map_option (\<lambda>n. - int n) (parseDigits ds)
      else if c = CHR ''+'' then map_option int (parseDigits ds)
      else map_option int (parseDigits (c # ds)))"

definition optInt :: "string \<Rightarrow> int option option" where
  "optInt s = (if s = [] then Some None else map_option Some (parseInt s))"

function enumUp :: "int \<Rightarrow> int \<Rightarrow> int \<Rightarrow> int list" where
  "enumUp a b s = (if 0 < s \<and> a < b then a # enumUp (a + s) b s else [])"
  by pat_completeness auto
termination
  by (relation "measure (\<lambda>(a, b, s). nat (b - a))") auto

function enumDown :: "int \<Rightarrow> int \<Rightarrow> int \<Rightarrow> int list" where
  "enumDown a b s = (if s < 0 \<and> b < a then a # enumDown (a + s) b s else [])"
  by pat_completeness auto
termination
  by (relation "measure (\<lambda>(a, b, s). nat (a - b))") auto

declare enumUp.simps [simp del] enumDown.simps [simp del]

definition normalize :: "int \<Rightarrow> int \<Rightarrow> int" where
  "normalize L x = (if x < 0 then x + L else x)"

definition clampTo :: "int \<times> int \<Rightarrow> int \<Rightarrow> int" where
  "clampTo bounds x =
     (if x < fst bounds then fst bounds else if snd bounds < x then snd bounds else x)"

definition sliceRange :: "int option \<Rightarrow> int option \<Rightarrow> int option \<Rightarrow> int \<Rightarrow> string + int list" where
  "sliceRange a b s L =
     (let step = (case s of None \<Rightarrow> 1 | Some n \<Rightarrow> n) in
      if step = 0 then Inl ''array index step value must be non-zero''
      else
        let from = (case a of None \<Rightarrow> (if step > 0 then 0 else L - 1) | Some n \<Rightarrow> n);
            to = (case b of None \<Rightarrow> (if step > 0 then L else - L - 1) | Some n \<Rightarrow> n);
            from' = (if step > 0 then clampTo (0, L) (normalize L from)
                     else clampTo (- 1, L - 1) (normalize L from));
            to' = (if step > 0 then clampTo (0, L) (normalize L to)
                   else clampTo (- 1, L - 1) (normalize L to))
        in Inr (filter (\<lambda>i. 0 \<le> i \<and> i < L)
                  (if step > 0 then enumUp from' to' step else enumDown from' to' step)))"

definition sliceMember :: "string \<Rightarrow> int \<Rightarrow> string + int list" where
  "sliceMember idx L =
     (if idx = ''*'' then Inr (map int [0 ..< nat L])
      else case Split idx CHR '':'' of
        [n] \<Rightarrow>
          (case parseInt n of
             None \<Rightarrow> Inl ''invalid array index''
           | Some n \<Rightarrow> (let n' = (if n < 0 then L + n else n)
                        in Inr (if 0 \<le> n' \<and> n' < L then [n'] else [])))
      | [a, b] \<Rightarrow>
          (case (optInt a, optInt b) of
             (Some a', Some b') \<Rightarrow> sliceRange a' b' None L
           | _ \<Rightarrow> Inl ''invalid array index'')
      | [a, b, s] \<Rightarrow>
          (case (optInt a, optInt b, optInt s) of
             (Some a', Some b', Some s') \<Rightarrow> sliceRange a' b' s' L
           | _ \<Rightarrow> Inl ''invalid array index'')
      | _ \<Rightarrow> Inl ''invalid array index'')"

fun unionAll :: "(string + int list) list \<Rightarrow> string + int list" where
  "unionAll [] = Inr []"
| "unionAll (Inl err # rs) = Inl err"
| "unionAll (Inr xs # rs) = (case unionAll rs of Inl err \<Rightarrow> Inl err | Inr ys \<Rightarrow> Inr (xs @ ys))"

definition slice :: slicer where
  "slice subscript L = unionAll (map (\<lambda>m. sliceMember m L) (Split subscript CHR '',''))"

text \<open>
  Modelled from the spec: what the lexer emits for a bracket that holds neither a filter
  nor quoted names (sections 4.1, 4.5 and 7). The text between the brackets is an array
  subscript; an invalid slice, such as one with step zero, is a compile error, which the
  lexer reports with an Error lexeme; otherwise the lexeme is an ArraySubscript that
  carries the text of the bracket. Whether a subscript is valid does not depend on the
  length of the sequence (lemma \<open>slice_error_any_length\<close>), so the check uses length 0.
  A list of lexemes is \<open>validated\<close> when each of its ArraySubscript lexemes is the one
  this rule emits for its text.
\<close>

definition lexArraySubscript :: "string \<Rightarrow> lexeme" where
  "lexArraySubscript text =
     (case slice (TrimSuffix (TrimPrefix text ''['') '']'') 0 of
        Inl err \<Rightarrow> Lexeme lexemeError err
      | Inr indices \<Rightarrow> Lexeme lexemeArraySubscript text)"

definition validated :: "lexeme list \<Rightarrow> bool" where
  "validated l = list_all (\<lambda>lx. ltyp lx \<noteq> lexemeArraySubscript \<or> lexArraySubscript (val lx) = lx) l"

text \<open>
  A path never panics on a slice when no call of it, on any node and root, ends in the
  panic that \<open>arraySubscriptThen\<close> raises on an error of the slice parser.
\<close>

definition neverSlicePanics :: "Path option \<Rightarrow> bool" where
  "neverSlicePanics p = (\<forall>n root e. callf p n root \<noteq> Inl (SlicePanic e))"

text \<open>
  A tree is well formed when each Document node in it has a child and each Mapping node
  in it has an even number of children, as in the trees the YAML parser builds. A path
  \<open>returns\<close> when every call of it on a well-formed node ends without panic in a list
  of well-formed nodes.
\<close>

fun wellFormed :: "node \<Rightarrow> bool" where
  "wellFormed (Node k v t cs) =
     ((k = DocumentNode \<longrightarrow> cs \<noteq> []) \<and> (k = MappingNode \<longrightarrow> even (length cs))
      \<and> list_all wellFormed cs)"

definition returns :: "Path option \<Rightarrow> bool" where
  "returns p = (\<forall>n root. wellFormed n \<longrightarrow>
                 (\<exists>ns. callf p n root = Inr ns \<and> list_all wellFormed ns))"

section \<open>Sequences and composition\<close>

lemma callf_new: "callf (new g) n r = g n r"
  by (simp add: callf_def new_def)

lemma lift_Nil: "lift [] = []"
  by (simp add: lift_def)

lemma flatten_single: "flatten [x] = x"
  by (cases x) auto

lemma compose_single: "compose [n] p root = callf p n root"
  by (simp split: sum.splits)

lemma flatten_map_compose: "flatten (map (\<lambda>n. compose [n] p root) ns) = compose ns p root"
proof (induction ns)
  case Nil
  show ?case by simp
next
  case (Cons a ns)
  show ?case
  proof (cases "callf p a root")
    case (Inl e)
    then show ?thesis by simp
  next
    case (Inr xs)
    then show ?thesis using Cons by simp
  qed
qed

lemma flatten_map_callf: "flatten (map (\<lambda>n. callf p n root) ns) = compose ns p root"
  using flatten_map_compose[of p root ns] by (simp only: compose_single)

lemma compose_identity:
  "compose ns (new identity) root = Inr (filter (\<lambda>c. Kind c \<noteq> KindZero) ns)"
  by (induction ns) (auto simp: callf_new identity_def lift_def)

lemma compose_append:
  "compose (xs @ ys) q root = flatten [compose xs q root, compose ys q root]"
  by (induction xs) (auto simp: flatten_single split: sum.splits)

lemma compose_concat:
  "compose (concat xss) q root = flatten (map (\<lambda>xs. compose xs q root) xss)"
proof (induction xss)
  case Nil
  show ?case by simp
next
  case (Cons xs xss)
  then show ?case by (cases "compose xs q root") (auto simp: compose_append split: sum.splits)
qed

lemma compose_through:
  assumes "\<And>x. callf P x root = compose (g x) q root"
  shows "compose xs P root = compose (concat (map g xs)) q root"
  unfolding compose_concat map_map comp_def
  by (simp only: flatten_map_callf[symmetric] assms)

lemma collect_map_Inr: "collect (map Inr xs) = Inr xs"
  by (induction xs) auto

section \<open>Keys and values of a mapping\<close>

lemma keys_values_parity:
  "map snd (filter (\<lambda>(i, n). even i) (enumerate k cs))
     = (if even k then keyNodes cs else valueNodes cs)
   \<and> map snd (filter (\<lambda>(i, n). odd i) (enumerate k cs))
     = (if even k then valueNodes cs else keyNodes cs)"
  by (induction cs arbitrary: k) auto

lemma keys_values_enumerate:
  "map snd (filter (\<lambda>(i, n). i mod 2 = 0) (enumerate 0 cs)) = keyNodes cs"
  "map snd (filter (\<lambda>(i, n). \<not> i mod 2 = 0) (enumerate 0 cs)) = valueNodes cs"
  using keys_values_parity[of 0 cs] by (simp_all add: even_iff_mod_2_eq_zero)

lemma keyNodes_valueNodes_length:
  "length (keyNodes cs) = (length cs + 1) div 2 \<and> length (valueNodes cs) = length cs div 2"
  by (induction cs) auto

lemma keyNodes_valueNodes_nth:
  "(j < length (keyNodes cs) \<longrightarrow> keyNodes cs ! j = cs ! (2 * j))
   \<and> (j < length (valueNodes cs) \<longrightarrow> valueNodes cs ! j = cs ! (2 * j + 1))"
proof (induction cs arbitrary: j)
  case Nil
  show ?case by simp
next
  case (Cons c cs)
  have k: "keyNodes (c # cs) ! j = (c # cs) ! (2 * j)" if "j < length (keyNodes (c # cs))"
  proof (cases j)
    case 0
    then show ?thesis by simp
  next
    case (Suc i)
    then show ?thesis using that Cons[of i] by simp
  qed
  have v: "valueNodes (c # cs) ! j = (c # cs) ! (2 * j + 1)" if "j < length (valueNodes (c # cs))"
    using that Cons[of j] by simp
  show ?case using k v by blast
qed

lemma map_range_compose:
  "map (\<lambda>(i, n). compose (lift [n]) p root) xs = map (\<lambda>n. compose [n] p root) (map snd xs)"
  by (induction xs) (auto simp: lift_def)

lemma flatten_range_keys:
  "flatten (map (\<lambda>(i, n). compose (lift [n]) p root)
             (filter (\<lambda>(i, n). i mod 2 = 0) (range cs)))
   = compose (keyNodes cs) p root"
  unfolding map_range_compose flatten_map_compose range_def keys_values_enumerate ..

lemma flatten_range_values:
  "flatten (map (\<lambda>(i, n). compose (lift [n]) p root)
             (filter (\<lambda>(i, n). \<not> i mod 2 = 0) (range cs)))
   = compose (valueNodes cs) p root"
  unfolding map_range_compose flatten_map_compose range_def keys_values_enumerate ..

lemma sequence_elements:
  "flatten (map (\<lambda>i. case index cs i of Inl e \<Rightarrow> Inl e | Inr c \<Rightarrow> compose (lift [c]) q root)
             [0 ..< length cs])
   = compose cs q root"
proof -
  have "map (\<lambda>i. case index cs i of Inl e \<Rightarrow> Inl e | Inr c \<Rightarrow> compose (lift [c]) q root)
          [0 ..< length cs]
        = map (\<lambda>i. compose [cs ! i] q root) [0 ..< length cs]"
    by (simp add: index_def lift_def del: compose.simps)
  also have "\<dots> = map (\<lambda>c. compose [c] q root) cs"
    by (rule nth_equalityI) (simp_all del: compose.simps)
  finally show ?thesis by (simp only: flatten_map_compose)
qed

lemma allChildrenThen_eval:
  "callf (allChildrenThen q) p root = compose (childrenOf p) q root"
proof (cases "Kind p")
  case MappingNode
  then show ?thesis
    unfolding allChildrenThen_def callf_new childrenOf_def
    by (simp only: kind.case flatten_range_values)
next
  case SequenceNode
  then show ?thesis
    unfolding allChildrenThen_def callf_new childrenOf_def
    by (simp only: kind.case sequence_elements)
qed (simp_all add: allChildrenThen_def callf_new childrenOf_def empty_seq_def lift_Nil)

lemma index_values_enumerate:
  "even (length cs) \<Longrightarrow> even (length pre) \<Longrightarrow>
   map (\<lambda>(i, n). index (pre @ cs) (i + 1))
     (filter (\<lambda>(i, n). i mod 2 = 0 \<and> Value n = name) (enumerate (length pre) cs))
   = map Inr (valuesFor name cs)"
proof (induction cs arbitrary: pre rule: pairs.induct)
  case (1 k v cs)
  have "even (length (pre @ [k, v]))" using 1 by simp
  with 1 have IH:
    "map (\<lambda>(i, n). index ((pre @ [k, v]) @ cs) (i + 1))
       (filter (\<lambda>(i, n). i mod 2 = 0 \<and> Value n = name) (enumerate (length (pre @ [k, v])) cs))
     = map Inr (valuesFor name cs)"
    by (metis even_Suc_Suc_iff length_Cons)
  have ix: "index (pre @ k # v # cs) (Suc (length pre)) = Inr v"
    by (simp add: index_def nth_append)
  have par: "length pre mod 2 = 0" "Suc (length pre) mod 2 \<noteq> 0"
    using 1(3) by (simp_all add: even_iff_mod_2_eq_zero mod_Suc)
  show ?case using IH ix par
    by (simp add: valuesFor_def)
qed (simp_all add: valuesFor_def)

lemma bracket_values:
  assumes "even (length cs)"
  shows "collect (concat (map (\<lambda>childName.
             map (\<lambda>(i, n). index cs (i + 1))
               (filter (\<lambda>(i, n). i mod 2 = 0 \<and> Value n = childName) (range cs)))
           names))
         = Inr (concat (map (\<lambda>childName. valuesFor childName cs) names))"
proof -
  have one: "map (\<lambda>(i, n). index cs (i + 1))
               (filter (\<lambda>(i, n). i mod 2 = 0 \<and> Value n = childName) (range cs))
             = map Inr (valuesFor childName cs)" for childName
    using index_values_enumerate[OF assms, of "[]" childName] by (simp add: range_def)
  have cc: "concat (map (\<lambda>childName. map Inr (valuesFor childName cs)) names)
          = map Inr (concat (map (\<lambda>childName. valuesFor childName cs) names))"
    by (induction names) auto
  show ?thesis unfolding one cc collect_map_Inr ..
qed

section \<open>The walk of recursive descent\<close>

lemma recurse_postorder: "recurse ns = concat (map postorder ns)"
  by (induction ns rule: recurse.induct) auto

lemma reach_node:
  "(d, n) \<in> child_rel\<^sup>* \<longleftrightarrow> d = n \<or> (\<exists>c \<in> set (Content n). (d, c) \<in> child_rel\<^sup>*)"
proof
  assume "(d, n) \<in> child_rel\<^sup>*"
  then show "d = n \<or> (\<exists>c \<in> set (Content n). (d, c) \<in> child_rel\<^sup>*)"
    by (cases rule: rtrancl.cases) (auto simp: child_rel_def)
next
  assume "d = n \<or> (\<exists>c \<in> set (Content n). (d, c) \<in> child_rel\<^sup>*)"
  then show "(d, n) \<in> child_rel\<^sup>*"
    by (auto simp: child_rel_def intro: rtrancl.rtrancl_into_rtrancl)
qed

lemma set_recurse: "set (recurse ns) = {d. \<exists>n \<in> set ns. (d, n) \<in> child_rel\<^sup>*}"
proof (induction ns rule: recurse.induct)
  case 1
  show ?case by simp
next
  case (2 k v t cs ns)
  have "{d. (d, Node k v t cs) \<in> child_rel\<^sup>*}
          = insert (Node k v t cs) {d. \<exists>c \<in> set cs. (d, c) \<in> child_rel\<^sup>*}"
    using reach_node[of _ "Node k v t cs"] by auto
  with 2 show ?case by auto
qed

lemma children_first_recurse:
  "recurse ns = pre @ p # post \<Longrightarrow> set (Content p) \<subseteq> set pre"
proof (induction ns arbitrary: pre p post rule: recurse.induct)
  case 1
  then show ?case by simp
next
  case (2 k v t cs ns)
  have sub: "set cs \<subseteq> set (recurse cs)"
    by (auto simp: set_recurse)
  from 2(3) have "recurse cs @ Node k v t cs # recurse ns = pre @ p # post" by simp
  then consider
      (a) us where "recurse cs = pre @ p # us"
    | (b) "pre = recurse cs" "p = Node k v t cs"
    | (c) us where "pre = recurse cs @ Node k v t cs # us" "recurse ns = us @ p # post"
    by (auto simp: append_eq_append_conv2 append_eq_Cons_conv Cons_eq_append_conv)
  then show ?case
  proof cases
    case a
    then show ?thesis using 2(1) by blast
  next
    case b
    then show ?thesis using sub by simp
  next
    case c
    then show ?thesis using 2(2)[of us p post] by auto
  qed
qed

section \<open>The compiler returns a path or an error\<close>

lemma builders_Some:
  "\<exists>q. rootThen p = Some q"
  "\<exists>q. recursiveDescentThen c p = Some q"
  "\<exists>q. allChildrenThen p = Some q"
  "\<exists>q. childThen c p = Some q"
  "\<exists>q. bracketChildThen c p = Some q"
  "\<exists>q. arraySubscriptThen sl c p = Some q"
  "\<exists>q. filterThen flt p = Some q"
  "\<exists>q. recursiveFilterThen flt p = Some q"
  "\<exists>q. propertyNameChildThen c p = Some q"
  "\<exists>q. propertyNameBracketChildThen c p = Some q"
  "\<exists>q. propertyNameArraySubscriptThen c p = Some q"
  by (simp_all add: rootThen_def recursiveDescentThen_def allChildrenThen_def childThen_def
      bracketChildThen_def arraySubscriptThen_def filterThen_def recursiveFilterThen_def
      propertyNameChildThen_def propertyNameBracketChildThen_def
      propertyNameArraySubscriptThen_def new_def Let_def)

lemma andThen_definite:
  "definite r \<Longrightarrow> (\<And>p. \<exists>q. build p = Some q) \<Longrightarrow> definite (andThen r build)"
  unfolding definite_def andThen_def by (auto split: option.splits)

lemma definite_simps:
  "definite (Some p, None)" "definite (None, Some e)" "definite (new g, None)"
  by (simp_all add: definite_def new_def)

lemma newPath_definite: "definite (newPath nf sl l)"
proof (induction nf sl l rule: newPath.induct)
  case (1 nf sl)
  show ?case by (simp add: definite_simps)
next
  case (2 nf sl lx l)
  have filt: "definite (case filterLoop l [] 1 of
                 Inl err \<Rightarrow> (None, Some err)
               | Inr (filterLexemes, l') \<Rightarrow> andThen (newPath nf sl l') (build filterLexemes))"
    if bs: "\<And>fl p. \<exists>q. build fl p = Some q"
      and ty: "ltyp lx = lexemeFilterBegin \<or> ltyp lx = lexemeRecursiveFilterBegin"
    for build
  proof (cases "filterLoop l [] 1")
    case (Inl err)
    then show ?thesis by (simp add: definite_simps)
  next
    case (Inr pr)
    obtain fl l' where pr: "pr = (fl, l')" by (cases pr)
    have "definite (newPath nf sl l')"
      using ty Inr pr "2.IH" by blast
    then show ?thesis
      using Inr pr bs by (simp add: andThen_definite)
  qed
  show ?case
  proof (cases "ltyp lx")
    case lexemeFilterBegin
    then show ?thesis
      using filt[of "\<lambda>fl. filterThen (nf fl)"] by (simp add: builders_Some)
  next
    case lexemeRecursiveFilterBegin
    then show ?thesis
      using filt[of "\<lambda>fl. recursiveFilterThen (nf fl)"] by (simp add: builders_Some)
  qed (use "2.IH" in \<open>simp_all add: andThen_definite builders_Some definite_simps\<close>)
qed

text \<open>
  C2. For every input string, whatever lexemes the lexer produces for it and whatever the
  filter compiler and the slice parser are, \<open>NewPath\<close> returns either a path and no
  error, or no path and an error: never both, never neither. The compiler is a total
  function, so it returns on every input.
\<close>

theorem NewPath_definite_outcome:
  "((\<exists>p. NewPath lexer nf sl s = (Some p, None)) \<or> (\<exists>e. NewPath lexer nf sl s = (None, Some e)))
   \<and> (\<forall>p e. NewPath lexer nf sl s \<noteq> (Some p, Some e))
   \<and> NewPath lexer nf sl s \<noteq> (None, None)"
  using newPath_definite[of nf sl "lexer s"]
  by (auto simp: NewPath_def definite_def)

section \<open>Named children of a mapping\<close>

text \<open>
  C3. On a mapping that spells the key \<open>a\<close> twice, the dot child \<open>.a\<close> yields only the
  value of the first entry, because the loop of \<open>childThen\<close> returns at its first match,
  while the bracket child \<open>['a']\<close> yields the values of both entries.
\<close>

theorem childThen_first_match_only:
  "Find (fst (newPath nf sl [Lexeme lexemeDotChild ''.a'']))
     (Node MappingNode [] [] [Node ScalarNode ''a'' [] [], Node ScalarNode ''1'' [] [],
                              Node ScalarNode ''a'' [] [], Node ScalarNode ''2'' [] []])
   = Inr ([Node ScalarNode ''1'' [] []], None)
   \<and> Find (fst (newPath nf sl [Lexeme lexemeBracketChild [CHR ''['', squote, CHR ''a'', squote, CHR '']'']]))
     (Node MappingNode [] [] [Node ScalarNode ''a'' [] [], Node ScalarNode ''1'' [] [],
                              Node ScalarNode ''a'' [] [], Node ScalarNode ''2'' [] []])
   = Inr ([Node ScalarNode ''1'' [] [], Node ScalarNode ''2'' [] []], None)"
  by (simp add: andThen_def childThen_def bracketChildThen_def bracketChildNames_def unquote_def
      TrimPrefix_def TrimSuffix_def HasPrefix_def HasSuffix_def TrimSpace_def isSpace_def
      unescape_def balanced_def squote_def dquote_def backslash_def
      new_def Find_def find_nodes_def callf_def index_def range_def identity_def lift_def
      empty_seq_def Let_def)

text \<open>
  With the names as \<open>bracketChildNames\<close> reads them, the bracket child step on a Mapping
  node whose children come in pairs yields, name by name, the values of the entries
  with that key in document order, repetitions included, and feeds them to the rest of
  the path in that order.
\<close>

lemma bracketChildThen_values:
  "Kind m = MappingNode \<Longrightarrow> even (length (Content m)) \<Longrightarrow>
   callf (bracketChildThen childNames p) m root
     = compose (concat (map (\<lambda>name. valuesFor name (Content m)) (bracketChildNames childNames))) p root"
  unfolding bracketChildThen_def Let_def callf_new
  by (simp only: bracket_values) simp

text \<open>
  Plain names are read as they are written.
\<close>

lemma Split_no_sep: "sep \<notin> set s \<Longrightarrow> Split s sep = [s]"
  by (induction s) auto

lemma Split_append: "sep \<notin> set a \<Longrightarrow> Split (a @ sep # rest) sep = a # Split rest sep"
  by (induction a) auto

lemma quoted_no_comma:
  "plainName n \<Longrightarrow> CHR '','' \<notin> set (squote # n @ [squote])"
  by (auto simp: plainName_def squote_def)

lemma Split_writtenNames:
  "ns \<noteq> [] \<Longrightarrow> \<forall>n \<in> set ns. plainName n \<Longrightarrow>
   Split (writtenNames ns) CHR '','' = map (\<lambda>n. squote # n @ [squote]) ns"
proof (induction ns rule: writtenNames.induct)
  case 1
  then show ?case by simp
next
  case (2 n)
  then show ?case using Split_no_sep[OF quoted_no_comma[of n]] by simp
next
  case (3 n m ns)
  have "Split ((squote # n @ [squote]) @ CHR '','' # writtenNames (m # ns)) CHR '',''
          = (squote # n @ [squote]) # Split (writtenNames (m # ns)) CHR '',''"
    using 3(3) by (intro Split_append quoted_no_comma) simp
  then show ?case using 3 by simp
qed

lemma balanced_loop_without:
  "q \<notin> set c \<Longrightarrow>
   balanced_loop (c @ r) q bal prev = balanced_loop r q bal (if c = [] then prev else Some (last c))"
  by (induction c arbitrary: prev) auto

lemma balanced_quoted:
  assumes "plainName n"
  shows "balanced (squote # n @ [squote]) squote" and "balanced (squote # n @ [squote]) dquote"
proof -
  have s: "squote \<notin> set n" and d: "dquote \<notin> set n" and b: "n \<noteq> [] \<Longrightarrow> last n \<noteq> backslash"
    using assms by (auto simp: plainName_def)
  show "balanced (squote # n @ [squote]) squote"
    using balanced_loop_without[OF s, of "[squote]" False "Some squote"] b
    by (simp add: balanced_def squote_def backslash_def)
  have "dquote \<notin> set (squote # n @ [squote])" using d by (simp add: squote_def dquote_def)
  from balanced_loop_without[OF this, of "[]" True None]
  show "balanced (squote # n @ [squote]) dquote"
    by (simp add: balanced_def)
qed

lemma reconstitute_balanced:
  "\<forall>c \<in> set s. balanced c squote \<and> balanced c dquote \<Longrightarrow>
   reconstitute s children [] = (children @ s, [])"
  by (induction s arbitrary: children) auto

lemma unescape_loop_without:
  "backslash \<notin> set raw \<Longrightarrow> unescape_loop raw esc False = esc @ raw"
  by (induction raw arbitrary: esc) auto

lemma unquote_quoted:
  assumes "plainName n"
  shows "unquote (squote # n @ [squote]) = n"
proof -
  have sp: "\<not> isSpace squote" by (simp add: isSpace_def squote_def)
  have t: "TrimSpace (squote # n @ [squote]) = squote # n @ [squote]"
    using sp by (simp add: TrimSpace_def)
  have b: "backslash \<notin> set n" using assms by (auto simp: plainName_def)
  show ?thesis
    unfolding unquote_def t Let_def
    using unescape_loop_without[OF b, of "[]"]
    by (simp add: HasPrefix_def HasSuffix_def TrimPrefix_def TrimSuffix_def unescape_def)
qed

lemma bracketChildNames_written:
  assumes "ns \<noteq> []" and "\<forall>n \<in> set ns. plainName n"
  shows "bracketChildNames (writtenNames ns) = ns"
proof -
  have "\<forall>c \<in> set (map (\<lambda>n. squote # n @ [squote]) ns). balanced c squote \<and> balanced c dquote"
    using assms(2) balanced_quoted by auto
  then have r: "reconstitute (map (\<lambda>n. squote # n @ [squote]) ns) [] []
                  = (map (\<lambda>n. squote # n @ [squote]) ns, [])"
    using reconstitute_balanced[of "map (\<lambda>n. squote # n @ [squote]) ns" "[]"] by simp
  have "map unquote (map (\<lambda>n. squote # n @ [squote]) ns) = ns"
    using assms(2) by (induction ns) (simp_all add: unquote_quoted)
  then show ?thesis
    unfolding bracketChildNames_def Split_writtenNames[OF assms] r by simp
qed

text \<open>
  So for plain names and a Mapping node whose children come in pairs, the step yields
  the values name by name in the order the names are written, and in document order
  for each name.
\<close>

lemma bracketChildThen_plain_names:
  assumes "Kind m = MappingNode" and "even (length (Content m))"
    and "ns \<noteq> []" and "\<forall>n \<in> set ns. plainName n"
  shows "callf (bracketChildThen (writtenNames ns) p) m root
           = compose (concat (map (\<lambda>name. valuesFor name (Content m)) ns)) p root"
  using bracketChildThen_values[OF assms(1,2), of "writtenNames ns" p root]
    bracketChildNames_written[OF assms(3,4)]
  by simp

text \<open>
  C7. The names are not always read as they are written. Take the step with two quoted
  names, the first the letter a and an escaped backslash, the second the letter b.
  Before a quote \<open>balanced\<close> looks at one rune only, so it takes the closing quote of
  the first name, which follows the second backslash, for an escaped quote, and the two
  names are joined into one name: the text between the first and the last quote. On the
  mapping with two entries, the key of the first the letter a and a backslash and its
  value 1, the key of the second the letter b and its value 2, the step yields
  nothing, where the values 1 and 2 are due. Each of the two names written alone is
  read as written and yields its value; \<open>unescape\<close> does keep track of an escaped
  backslash.
\<close>

theorem bracketChildNames_merges_names:
  "bracketChildNames [squote, CHR ''a'', backslash, backslash, squote] = [[CHR ''a'', backslash]]
   \<and> bracketChildNames [squote, CHR ''b'', squote] = [''b'']
   \<and> bracketChildNames
        [squote, CHR ''a'', backslash, backslash, squote, CHR '','', squote, CHR ''b'', squote]
       = [[CHR ''a'', backslash, squote, CHR '','', squote, CHR ''b'']]
   \<and> Find (fst (newPath nf sl [Lexeme lexemeRoot ''$'',
         Lexeme lexemeBracketChild
           [CHR ''['', squote, CHR ''a'', backslash, backslash, squote, CHR '','',
            squote, CHR ''b'', squote, CHR '']'']]))
       (Node MappingNode [] []
          [Node ScalarNode [CHR ''a'', backslash] [] [], Node ScalarNode ''1'' [] [],
           Node ScalarNode ''b'' [] [], Node ScalarNode ''2'' [] []])
     = Inr ([], None)
   \<and> Find (fst (newPath nf sl [Lexeme lexemeRoot ''$'',
         Lexeme lexemeBracketChild
           [CHR ''['', squote, CHR ''a'', backslash, backslash, squote, CHR '']'']]))
       (Node MappingNode [] []
          [Node ScalarNode [CHR ''a'', backslash] [] [], Node ScalarNode ''1'' [] [],
           Node ScalarNode ''b'' [] [], Node ScalarNode ''2'' [] []])
     = Inr ([Node ScalarNode ''1'' [] []], None)
   \<and> Find (fst (newPath nf sl [Lexeme lexemeRoot ''$'',
         Lexeme lexemeBracketChild [CHR ''['', squote, CHR ''b'', squote, CHR '']'']]))
       (Node MappingNode [] []
          [Node ScalarNode [CHR ''a'', backslash] [] [], Node ScalarNode ''1'' [] [],
           Node ScalarNode ''b'' [] [], Node ScalarNode ''2'' [] []])
     = Inr ([Node ScalarNode ''2'' [] []], None)"
  by (simp add: andThen_def rootThen_def bracketChildThen_def bracketChildNames_def unquote_def
      TrimPrefix_def TrimSuffix_def HasPrefix_def HasSuffix_def TrimSpace_def isSpace_def
      unescape_def balanced_def squote_def dquote_def backslash_def
      new_def Find_def find_nodes_def callf_def index_def range_def identity_def lift_def
      empty_seq_def Let_def)

section \<open>Recursive descent\<close>

text \<open>
  C4, as stated, puts the current node first. On a sequence with one scalar the walk
  yields the scalar and then the sequence, so the current node is not the first node
  emitted.
\<close>

theorem recurse_root_not_first:
  "recurse [Node SequenceNode [] [] [Node ScalarNode ''x'' [] []]]
     = [Node ScalarNode ''x'' [] [], Node SequenceNode [] [] [Node ScalarNode ''x'' [] []]]
   \<and> hd (recurse [Node SequenceNode [] [] [Node ScalarNode ''x'' [] []]])
     \<noteq> Node SequenceNode [] [] [Node ScalarNode ''x'' [] []]"
  by simp

text \<open>
  C4, amended. The walk of recursive descent from a node is the post-order walk of its
  children followed by the node itself, which comes last. It emits exactly the node and
  its transitive descendants, every node after all of its children. Every compiled
  recursive-descent step feeds the emitted nodes, in that order, to its next matcher:
  the rest of the path for \<open>..\<close>, the child matcher of the name before the rest of the
  path for \<open>..name\<close>, and the matcher of all children before the rest of the path for
  \<open>..*\<close>.
\<close>

theorem recurse_post_order:
  "recurse [n] = concat (map postorder (Content n)) @ [n]
   \<and> set (recurse [n]) = insert n {d. (d, n) \<in> child_rel\<^sup>+}
   \<and> (\<forall>pre p post. recurse [n] = pre @ p # post \<longrightarrow> set (Content p) \<subseteq> set pre)
   \<and> (newPath nf sl rest = (q, None) \<longrightarrow>
        (\<exists>P. newPath nf sl (Lexeme lexemeRecursiveDescent v # rest) = (Some P, None)
           \<and> (\<forall>d root. f P d root =
                 compose (recurse [d])
                   (if TrimPrefix v ''..'' = ''*'' then allChildrenThen q
                    else if TrimPrefix v ''..'' = [] then q
                    else childThen (TrimPrefix v ''..'') q)
                   root)))"
proof -
  have a: "recurse [n] = concat (map postorder (Content n)) @ [n]"
    by (cases n) (simp add: recurse_postorder)
  have "{d. (d, n) \<in> child_rel\<^sup>*} = insert n {d. (d, n) \<in> child_rel\<^sup>+}"
    by (auto simp: rtrancl_eq_or_trancl)
  then have b: "set (recurse [n]) = insert n {d. (d, n) \<in> child_rel\<^sup>+}"
    by (simp add: set_recurse)
  have c: "\<forall>pre p post. recurse [n] = pre @ p # post \<longrightarrow> set (Content p) \<subseteq> set pre"
    using children_first_recurse by blast
  have d: "newPath nf sl rest = (q, None) \<longrightarrow>
        (\<exists>P. newPath nf sl (Lexeme lexemeRecursiveDescent v # rest) = (Some P, None)
           \<and> (\<forall>d root. f P d root =
                 compose (recurse [d])
                   (if TrimPrefix v ''..'' = ''*'' then allChildrenThen q
                    else if TrimPrefix v ''..'' = [] then q
                    else childThen (TrimPrefix v ''..'') q)
                   root))"
    by (simp add: andThen_def recursiveDescentThen_def new_def del: recurse.simps)
  from a b c d show ?thesis by (intro conjI)
qed

lemma trim_dots:
  "TrimPrefix ''..'' ''..'' = []" "TrimPrefix ''..a'' ''..'' = ''a''" "TrimPrefix ''..*'' ''..'' = ''*''"
  by (simp_all add: TrimPrefix_def HasPrefix_def)

theorem recurse_post_order_witness:
  "recurse [Node SequenceNode [] [] [Node ScalarNode ''x'' [] []]]
     = [Node ScalarNode ''x'' [] [], Node SequenceNode [] [] [Node ScalarNode ''x'' [] []]]
   \<and> (\<exists>P. newPath (\<lambda>ls n r. True) (\<lambda>s L. Inr []) [Lexeme lexemeRecursiveDescent ''..''] = (Some P, None)
        \<and> f P (Node SequenceNode [] [] [Node ScalarNode ''x'' [] []]) (Node SequenceNode [] [] [])
            = Inr [Node ScalarNode ''x'' [] [], Node SequenceNode [] [] [Node ScalarNode ''x'' [] []]])
   \<and> (\<exists>P. newPath (\<lambda>ls n r. True) (\<lambda>s L. Inr []) [Lexeme lexemeRecursiveDescent ''..a''] = (Some P, None)
        \<and> f P (Node MappingNode [] []
                  [Node ScalarNode ''a'' [] [],
                   Node MappingNode [] [] [Node ScalarNode ''a'' [] [], Node ScalarNode ''1'' [] []]])
               (Node SequenceNode [] [] [])
            = Inr [Node ScalarNode ''1'' [] [],
                   Node MappingNode [] [] [Node ScalarNode ''a'' [] [], Node ScalarNode ''1'' [] []]])
   \<and> (\<exists>P. newPath (\<lambda>ls n r. True) (\<lambda>s L. Inr []) [Lexeme lexemeRecursiveDescent ''..*''] = (Some P, None)
        \<and> f P (Node SequenceNode [] []
                  [Node SequenceNode [] [] [Node ScalarNode ''x'' [] []], Node ScalarNode ''y'' [] []])
               (Node SequenceNode [] [] [])
            = Inr [Node ScalarNode ''x'' [] [],
                   Node SequenceNode [] [] [Node ScalarNode ''x'' [] []], Node ScalarNode ''y'' [] []])"
proof -
  let ?S = "Node SequenceNode [] [] [Node ScalarNode ''x'' [] []]"
  let ?I = "Node MappingNode [] [] [Node ScalarNode ''a'' [] [], Node ScalarNode ''1'' [] []]"
  let ?M = "Node MappingNode [] [] [Node ScalarNode ''a'' [] [], ?I]"
  let ?T = "Node SequenceNode [] [] [?S, Node ScalarNode ''y'' [] []]"
  let ?nf = "\<lambda>(ls :: lexeme list) (n :: node) (r :: node). True"
  let ?sl = "\<lambda>(s :: string) (L :: int). Inr [] :: string + int list"
  note t = recurse_post_order[where n = ?S and nf = ?nf and sl = ?sl and rest = "[]"
      and q = "new identity" and v = "''..''"]
  note u = recurse_post_order[where n = ?M and nf = ?nf and sl = ?sl and rest = "[]"
      and q = "new identity" and v = "''..a''"]
  note w = recurse_post_order[where n = ?T and nf = ?nf and sl = ?sl and rest = "[]"
      and q = "new identity" and v = "''..*''"]
  have h: "newPath ?nf ?sl [] = (new identity, None)" by simp
  from t have r: "recurse [?S] = concat (map postorder (Content ?S)) @ [?S]"
    by (rule conjunct1)
  from t h obtain P where
    P: "newPath ?nf ?sl [Lexeme lexemeRecursiveDescent ''..''] = (Some P, None)"
       "\<forall>d root. f P d root = compose (recurse [d])
          (if TrimPrefix ''..'' ''..'' = ''*'' then allChildrenThen (new identity)
           else if TrimPrefix ''..'' ''..'' = [] then new identity
           else childThen (TrimPrefix ''..'' ''..'') (new identity)) root"
    by blast
  from P(2) have a: "f P ?S (Node SequenceNode [] [] []) = Inr [Node ScalarNode ''x'' [] [], ?S]"
    by (simp add: trim_dots compose_identity)
  from u h obtain P' where
    P': "newPath ?nf ?sl [Lexeme lexemeRecursiveDescent ''..a''] = (Some P', None)"
       "\<forall>d root. f P' d root = compose (recurse [d])
          (if TrimPrefix ''..a'' ''..'' = ''*'' then allChildrenThen (new identity)
           else if TrimPrefix ''..a'' ''..'' = [] then new identity
           else childThen (TrimPrefix ''..a'' ''..'') (new identity)) root"
    by blast
  from P'(2) have b: "f P' ?M (Node SequenceNode [] [] []) = Inr [Node ScalarNode ''1'' [] [], ?I]"
    by (simp add: trim_dots childThen_def callf_new unescape_def backslash_def range_def index_def
        lift_def compose_identity identity_def empty_seq_def)
  from w h obtain P'' where
    P'': "newPath ?nf ?sl [Lexeme lexemeRecursiveDescent ''..*''] = (Some P'', None)"
       "\<forall>d root. f P'' d root = compose (recurse [d])
          (if TrimPrefix ''..*'' ''..'' = ''*'' then allChildrenThen (new identity)
           else if TrimPrefix ''..*'' ''..'' = [] then new identity
           else childThen (TrimPrefix ''..*'' ''..'') (new identity)) root"
    by blast
  have "compose (recurse [?T]) (allChildrenThen (new identity)) (Node SequenceNode [] [] [])
          = compose (concat (map childrenOf (recurse [?T]))) (new identity) (Node SequenceNode [] [] [])"
    by (rule compose_through) (rule allChildrenThen_eval)
  with P''(2) have b': "f P'' ?T (Node SequenceNode [] [] [])
      = Inr [Node ScalarNode ''x'' [] [], ?S, Node ScalarNode ''y'' [] []]"
    by (simp add: trim_dots compose_identity childrenOf_def)
  from P(1) a have c: "\<exists>P. newPath ?nf ?sl [Lexeme lexemeRecursiveDescent ''..''] = (Some P, None)
        \<and> f P ?S (Node SequenceNode [] [] []) = Inr [Node ScalarNode ''x'' [] [], ?S]" by blast
  from P'(1) b have d: "\<exists>P. newPath ?nf ?sl [Lexeme lexemeRecursiveDescent ''..a''] = (Some P, None)
        \<and> f P ?M (Node SequenceNode [] [] []) = Inr [Node ScalarNode ''1'' [] [], ?I]" by blast
  from P''(1) b' have d': "\<exists>P. newPath ?nf ?sl [Lexeme lexemeRecursiveDescent ''..*''] = (Some P, None)
        \<and> f P ?T (Node SequenceNode [] [] [])
            = Inr [Node ScalarNode ''x'' [] [], ?S, Node ScalarNode ''y'' [] []]" by blast
  have e: "recurse [?S] = [Node ScalarNode ''x'' [] [], ?S]" using r by simp
  from e c d d' show ?thesis by (intro conjI)
qed

lemma star_eval:
  "compose (recurse [d]) (allChildrenThen (new identity)) root
     = Inr (filter (\<lambda>c. Kind c \<noteq> KindZero) (concat (map childrenOf (recurse [d]))))"
proof -
  have "compose (recurse [d]) (allChildrenThen (new identity)) root
          = compose (concat (map childrenOf (recurse [d]))) (new identity) root"
    by (rule compose_through) (rule allChildrenThen_eval)
  then show ?thesis by (simp only: compose_identity)
qed

lemma root_star_eval:
  assumes "Kind d = DocumentNode" and "Content d = c # cs"
  shows "Find (fst (newPath nf sl [Lexeme lexemeRoot v, Lexeme lexemeRecursiveDescent ''..*''])) d
          = Inr (filter (\<lambda>x. Kind x \<noteq> KindZero) (concat (map childrenOf (recurse [c]))), None)"
  using assms
  by (simp add: andThen_def rootThen_def recursiveDescentThen_def TrimPrefix_def HasPrefix_def
        callf_new Find_def find_nodes_def star_eval compose_single lift_def index_def
        new_def[symmetric] del: recurse.simps compose.simps)

text \<open>
  The path \<open>..*\<close> is compiled behind the root step: the compiler of the package matches
  the root before the rest of the path also when \<open>$\<close> is not written, so the lexemes of
  \<open>..*\<close> are those of \<open>$..*\<close>, a Root lexeme and a RecursiveDescent lexeme.

  C5, as stated, fails on a document whose root value is a mapping with one entry: the
  path returns the value of the entry only, and neither the document node, nor the
  mapping, nor the key is among the nodes returned. On a Document node without content
  the path returns nothing at all: the root step reads the first child and panics.
\<close>

theorem recursive_descent_star_misses_root_and_keys:
  "Find (fst (newPath (\<lambda>ls n r. True) (\<lambda>s L. Inr [])
           [Lexeme lexemeRoot ''$'', Lexeme lexemeRecursiveDescent ''..*'']))
     (Node DocumentNode [] []
        [Node MappingNode [] [] [Node ScalarNode ''k'' [] [], Node ScalarNode ''v'' [] []]])
   = Inr ([Node ScalarNode ''v'' [] []], None)
   \<and> Node DocumentNode [] []
        [Node MappingNode [] [] [Node ScalarNode ''k'' [] [], Node ScalarNode ''v'' [] []]]
       \<notin> set [Node ScalarNode ''v'' [] []]
   \<and> Node MappingNode [] [] [Node ScalarNode ''k'' [] [], Node ScalarNode ''v'' [] []]
       \<notin> set [Node ScalarNode ''v'' [] []]
   \<and> Node ScalarNode ''k'' [] [] \<notin> set [Node ScalarNode ''v'' [] []]
   \<and> Find (fst (newPath (\<lambda>ls n r. True) (\<lambda>s L. Inr [])
           [Lexeme lexemeRoot ''$'', Lexeme lexemeRecursiveDescent ''..*'']))
     (Node DocumentNode [] [] [])
   = Inl IndexOutOfRange"
proof -
  let ?m = "Node MappingNode [] [] [Node ScalarNode ''k'' [] [], Node ScalarNode ''v'' [] []]"
  have "Find (fst (newPath (\<lambda>ls n r. True) (\<lambda>s L. Inr [])
           [Lexeme lexemeRoot ''$'', Lexeme lexemeRecursiveDescent ''..*'']))
         (Node DocumentNode [] [] [?m])
        = Inr ([Node ScalarNode ''v'' [] []], None)"
    using root_star_eval[of "Node DocumentNode [] [] [?m]" ?m "[]"]
    by (simp add: childrenOf_def)
  moreover have "Find (fst (newPath (\<lambda>ls n r. True) (\<lambda>s L. Inr [])
           [Lexeme lexemeRoot ''$'', Lexeme lexemeRecursiveDescent ''..*'']))
         (Node DocumentNode [] [] [])
        = Inl IndexOutOfRange"
    by (simp add: andThen_def rootThen_def recursiveDescentThen_def new_def Find_def
        find_nodes_def callf_def index_def)
  ultimately show ?thesis by simp
qed

text \<open>
  C5, amended. For every document whose Content holds a root value, the path \<open>..*\<close>
  returns a list of nodes and no error. The list holds every node of a kind other than
  zero that is the value of a mapping entry or an element of a sequence in the tree of
  the root value, each at least once; and every node of the list, the root value aside,
  is such a value or element. Whether the root value itself is returned is left open
  here.
\<close>

theorem recursive_descent_star_children:
  assumes "Kind d = DocumentNode" and "Content d = c # cs"
  shows "\<exists>ns. Find (fst (newPath nf sl
                  [Lexeme lexemeRoot v, Lexeme lexemeRecursiveDescent ''..*''])) d = Inr (ns, None)
     \<and> (\<forall>p x. (p = c \<or> (p, c) \<in> child_rel\<^sup>+) \<and> x \<in> set (childrenOf p) \<and> Kind x \<noteq> KindZero
            \<longrightarrow> x \<in> set ns)
     \<and> (\<forall>x \<in> set ns. x = c \<or> (\<exists>p. (p = c \<or> (p, c) \<in> child_rel\<^sup>+)
                                       \<and> x \<in> set (childrenOf p) \<and> Kind x \<noteq> KindZero))"
proof -
  let ?ns = "filter (\<lambda>x. Kind x \<noteq> KindZero) (concat (map childrenOf (recurse [c])))"
  have walk: "set (recurse [c]) = {p. p = c \<or> (p, c) \<in> child_rel\<^sup>+}"
    by (auto simp: set_recurse rtrancl_eq_or_trancl)
  have incl: "\<forall>p x. (p = c \<or> (p, c) \<in> child_rel\<^sup>+) \<and> x \<in> set (childrenOf p) \<and> Kind x \<noteq> KindZero
            \<longrightarrow> x \<in> set ?ns"
    using walk by (auto simp del: recurse.simps)
  have sound: "\<forall>x \<in> set ?ns. x = c \<or> (\<exists>p. (p = c \<or> (p, c) \<in> child_rel\<^sup>+)
                                       \<and> x \<in> set (childrenOf p) \<and> Kind x \<noteq> KindZero)"
    using walk by (auto simp del: recurse.simps)
  show ?thesis
    using root_star_eval[OF assms, of nf sl v] incl sound by blast
qed

theorem recursive_descent_star_children_witness:
  "\<exists>ns. Find (fst (newPath (\<lambda>ls n r. True) (\<lambda>s L. Inr [])
           [Lexeme lexemeRoot ''$'', Lexeme lexemeRecursiveDescent ''..*'']))
     (Node DocumentNode [] []
        [Node MappingNode [] []
           [Node ScalarNode ''k'' [] [],
            Node SequenceNode [] [] [Node ScalarNode ''1'' [] [], Node ScalarNode ''2'' [] []]]])
     = Inr (ns, None)
   \<and> Node SequenceNode [] [] [Node ScalarNode ''1'' [] [], Node ScalarNode ''2'' [] []] \<in> set ns
   \<and> Node ScalarNode ''1'' [] [] \<in> set ns
   \<and> Node ScalarNode ''2'' [] [] \<in> set ns
   \<and> Node ScalarNode ''k'' [] [] \<notin> set ns"
proof -
  let ?s = "Node SequenceNode [] [] [Node ScalarNode ''1'' [] [], Node ScalarNode ''2'' [] []]"
  let ?k = "Node ScalarNode ''k'' [] []"
  let ?m = "Node MappingNode [] [] [?k, ?s]"
  let ?d = "Node DocumentNode [] [] [?m]"
  have k: "Kind ?d = DocumentNode" by simp
  have c: "Content ?d = ?m # []" by simp
  from recursive_descent_star_children[OF k c, of "\<lambda>ls n r. True" "\<lambda>s L. Inr []" "''$''"]
  obtain ns where
    f: "Find (fst (newPath (\<lambda>ls n r. True) (\<lambda>s L. Inr [])
           [Lexeme lexemeRoot ''$'', Lexeme lexemeRecursiveDescent ''..*''])) ?d = Inr (ns, None)"
    and incl: "\<forall>p x. (p = ?m \<or> (p, ?m) \<in> child_rel\<^sup>+) \<and> x \<in> set (childrenOf p)
                 \<and> Kind x \<noteq> KindZero \<longrightarrow> x \<in> set ns"
    and sound: "\<forall>x \<in> set ns. x = ?m \<or> (\<exists>p. (p = ?m \<or> (p, ?m) \<in> child_rel\<^sup>+)
                                       \<and> x \<in> set (childrenOf p) \<and> Kind x \<noteq> KindZero)"
    by blast
  have sm: "(?s, ?m) \<in> child_rel\<^sup>+"
    by (rule r_into_trancl) (simp add: child_rel_def)
  have a: "?s \<in> set ns"
    using incl[rule_format, of ?m ?s] by (simp add: childrenOf_def)
  have b: "Node ScalarNode ''1'' [] [] \<in> set ns"
    using incl[rule_format, of ?s "Node ScalarNode ''1'' [] []"] sm by (simp add: childrenOf_def)
  have b2: "Node ScalarNode ''2'' [] [] \<in> set ns"
    using incl[rule_format, of ?s "Node ScalarNode ''2'' [] []"] sm by (simp add: childrenOf_def)
  have tree: "{p. p = ?m \<or> (p, ?m) \<in> child_rel\<^sup>+} = set (recurse [?m])"
    by (auto simp: set_recurse rtrancl_eq_or_trancl simp del: recurse.simps)
  have nokey: "\<forall>p \<in> set (recurse [?m]). ?k \<notin> set (childrenOf p)"
    by (simp add: childrenOf_def)
  have e: "?k \<notin> set ns"
  proof
    assume "?k \<in> set ns"
    with sound obtain p where "p = ?m \<or> (p, ?m) \<in> child_rel\<^sup>+" "?k \<in> set (childrenOf p)"
      by blast
    then have "p \<in> set (recurse [?m])" "?k \<in> set (childrenOf p)" using tree by blast+
    with nokey show False by blast
  qed
  from f a b b2 e show ?thesis by blast
qed

section \<open>Property names and recursive filters\<close>

text \<open>
  C9. The step \<open>[*]~\<close> on a Mapping node feeds the key nodes, which are the children at
  the even indices, to the rest of the path in document order; on a node of any other
  kind, and with any subscript other than \<open>*\<close>, it yields nothing. The compiler
  builds this step, with the subscript \<open>*\<close>, from the lexeme \<open>[*]~\<close>.
\<close>

theorem propertyNameArraySubscriptThen_keys:
  "(Kind m = MappingNode \<longrightarrow>
      callf (propertyNameArraySubscriptThen ''*'' p) m root = compose (keyNodes (Content m)) p root
      \<and> length (keyNodes (Content m)) = (length (Content m) + 1) div 2
      \<and> (\<forall>j < length (keyNodes (Content m)). keyNodes (Content m) ! j = Content m ! (2 * j)))
   \<and> (Kind n \<noteq> MappingNode \<longrightarrow> callf (propertyNameArraySubscriptThen s p) n root = Inr [])
   \<and> (s \<noteq> ''*'' \<longrightarrow> callf (propertyNameArraySubscriptThen s p) n root = Inr [])
   \<and> newPath nf sl [Lexeme lexemeArraySubscriptPropertyName ''[*]~'']
       = (propertyNameArraySubscriptThen ''*'' (new identity), None)"
  using keyNodes_valueNodes_nth[of _ "Content m"] keyNodes_valueNodes_length[of "Content m"]
  by (simp add: propertyNameArraySubscriptThen_def callf_new flatten_range_keys
      empty_seq_def lift_Nil andThen_def TrimPrefix_def TrimSuffix_def HasPrefix_def HasSuffix_def)

theorem propertyNameArraySubscriptThen_keys_witness:
  "callf (propertyNameArraySubscriptThen ''*'' (new identity))
     (Node MappingNode [] []
        [Node ScalarNode ''a'' [] [], Node ScalarNode ''1'' [] [],
         Node ScalarNode ''b'' [] [], Node ScalarNode ''2'' [] []])
     (Node ScalarNode [] [] [])
   = Inr [Node ScalarNode ''a'' [] [], Node ScalarNode ''b'' [] []]
   \<and> callf (propertyNameArraySubscriptThen ''*'' (new identity))
     (Node SequenceNode [] [] [Node ScalarNode ''1'' [] []]) (Node ScalarNode [] [] [])
   = Inr []
   \<and> callf (propertyNameArraySubscriptThen ''0'' (new identity))
     (Node MappingNode [] []
        [Node ScalarNode ''a'' [] [], Node ScalarNode ''1'' [] [],
         Node ScalarNode ''b'' [] [], Node ScalarNode ''2'' [] []])
     (Node ScalarNode [] [] [])
   = Inr []"
  using propertyNameArraySubscriptThen_keys[of
      "Node MappingNode [] []
        [Node ScalarNode ''a'' [] [], Node ScalarNode ''1'' [] [],
         Node ScalarNode ''b'' [] [], Node ScalarNode ''2'' [] []]"
      "new identity" "Node ScalarNode [] [] []"
      "Node SequenceNode [] [] [Node ScalarNode ''1'' [] []]" "''*''"]
    propertyNameArraySubscriptThen_keys[of
      "Node MappingNode [] []
        [Node ScalarNode ''a'' [] [], Node ScalarNode ''1'' [] [],
         Node ScalarNode ''b'' [] [], Node ScalarNode ''2'' [] []]"
      "new identity" "Node ScalarNode [] [] []"
      "Node MappingNode [] []
        [Node ScalarNode ''a'' [] [], Node ScalarNode ''1'' [] [],
         Node ScalarNode ''b'' [] [], Node ScalarNode ''2'' [] []]" "''0''"]
  by (simp add: compose_identity)

text \<open>
  C10. The matcher compiled for a recursive filter evaluates the filter on the node it
  is applied to, whatever the kind of the node, and keeps the node iff the filter holds;
  its result depends on the filter at that node only. The matcher compiled for a plain
  filter from the same lexemes instead filters the elements of a Sequence node.
\<close>

theorem recursiveFilterThen_node_itself:
  assumes "filterLoop l [] 1 = Inr (fl, rest)" and "newPath nf sl rest = (q, None)"
  shows "(\<exists>P. newPath nf sl (Lexeme lexemeRecursiveFilterBegin v # l) = (Some P, None)
            \<and> (\<forall>n root. f P n root = (if nf fl n root then callf q n root else Inr [])))
       \<and> (\<exists>P'. newPath nf sl (Lexeme lexemeFilterBegin v # l) = (Some P', None)
            \<and> (\<forall>n root. Kind n = SequenceNode \<longrightarrow>
                  f P' n root = compose (filter (\<lambda>c. nf fl c root) (Content n)) q root))"
  using assms
  by (simp add: andThen_def recursiveFilterThen_def filterThen_def new_def compose_single
      lift_def flatten_map_callf flatten_single del: compose.simps)

theorem recursiveFilterThen_node_itself_witness:
  "\<exists>P P'. newPath (\<lambda>ls n r. Kind n = ScalarNode) (\<lambda>s L. Inr [])
             [Lexeme lexemeRecursiveFilterBegin ''[?('', Lexeme lexemeFilterAt ''@'',
              Lexeme lexemeFilterEnd '')]''] = (Some P, None)
     \<and> newPath (\<lambda>ls n r. Kind n = ScalarNode) (\<lambda>s L. Inr [])
             [Lexeme lexemeFilterBegin ''[?('', Lexeme lexemeFilterAt ''@'',
              Lexeme lexemeFilterEnd '')]''] = (Some P', None)
     \<and> f P (Node SequenceNode [] [] [Node ScalarNode ''x'' [] []]) (Node ScalarNode [] [] [])
         = Inr []
     \<and> f P' (Node SequenceNode [] [] [Node ScalarNode ''x'' [] []]) (Node ScalarNode [] [] [])
         = Inr [Node ScalarNode ''x'' [] []]"
proof -
  let ?nf = "\<lambda>(ls :: lexeme list) (n :: node) (r :: node). Kind n = ScalarNode"
  let ?sl = "\<lambda>(s :: string) (L :: int). Inr [] :: string + int list"
  let ?l = "[Lexeme lexemeFilterAt ''@'', Lexeme lexemeFilterEnd '')]'']"
  have h1: "filterLoop ?l [] 1 = Inr ([Lexeme lexemeFilterAt ''@''], [])" by simp
  have h2: "newPath ?nf ?sl [] = (new identity, None)" by simp
  from recursiveFilterThen_node_itself[OF h1 h2, of "''[?(''"] obtain P P' where
    P: "newPath ?nf ?sl (Lexeme lexemeRecursiveFilterBegin ''[?('' # ?l) = (Some P, None)"
       "\<forall>n root. f P n root
          = (if ?nf [Lexeme lexemeFilterAt ''@''] n root then callf (new identity) n root else Inr [])"
    and P': "newPath ?nf ?sl (Lexeme lexemeFilterBegin ''[?('' # ?l) = (Some P', None)"
       "\<forall>n root. Kind n = SequenceNode \<longrightarrow>
          f P' n root = compose (filter (\<lambda>c. ?nf [Lexeme lexemeFilterAt ''@''] c root) (Content n))
                          (new identity) root"
    by blast
  have a: "f P (Node SequenceNode [] [] [Node ScalarNode ''x'' [] []]) (Node ScalarNode [] [] [])
         = Inr []"
    using P(2) by simp
  have b: "f P' (Node SequenceNode [] [] [Node ScalarNode ''x'' [] []]) (Node ScalarNode [] [] [])
         = Inr [Node ScalarNode ''x'' [] []]"
    using P'(2) by (simp add: compose_identity)
  show ?thesis using P(1) P'(1) a b by blast
qed

section \<open>Comparisons in filters\<close>

text \<open>
  C6. A comparison filter is true iff the list of values on its left is non-empty, the
  list on its right is non-empty, and the concrete comparison holds for every pair of a
  left and a right value; so a comparison with an empty side is false.
\<close>

theorem comparisonFilter_all_pairs:
  "(comparisonFilter compare typedValue l r context root \<longleftrightarrow>
      liftTerm typedValue l context root \<noteq> []
      \<and> liftTerm typedValue r context root \<noteq> []
      \<and> (\<forall>x \<in> set (liftTerm typedValue l context root).
           \<forall>y \<in> set (liftTerm typedValue r context root). compare x y))
   \<and> (liftTerm typedValue l context root = [] \<or> liftTerm typedValue r context root = []
        \<longrightarrow> \<not> comparisonFilter compare typedValue l r context root)"
  by (auto simp: comparisonFilter_def Let_def list_all_iff)

theorem comparisonFilter_all_pairs_witness:
  "comparisonFilter (\<lambda>x y. x < y) (\<lambda>n. int (length (Value n)))
     (Literal 1) (PathQuery At (\<lambda>n r. Content n))
     (Node SequenceNode [] [] [Node ScalarNode ''ab'' [] [], Node ScalarNode ''abc'' [] []])
     (Node ScalarNode [] [] [])
   \<and> \<not> comparisonFilter (\<lambda>x y. x < y) (\<lambda>n. int (length (Value n)))
     (Literal 2) (PathQuery At (\<lambda>n r. Content n))
     (Node SequenceNode [] [] [Node ScalarNode ''ab'' [] [], Node ScalarNode ''abc'' [] []])
     (Node ScalarNode [] [] [])
   \<and> \<not> comparisonFilter (\<lambda>x y. x < y) (\<lambda>n. int (length (Value n)))
     (Literal 1) (PathQuery Root (\<lambda>n r. Content n))
     (Node SequenceNode [] [] [Node ScalarNode ''ab'' [] [], Node ScalarNode ''abc'' [] []])
     (Node ScalarNode [] [] [])"
  using comparisonFilter_all_pairs[of "\<lambda>x y. x < y" "\<lambda>n. int (length (Value n))"
      "Literal 1" "PathQuery At (\<lambda>n r. Content n)"
      "Node SequenceNode [] [] [Node ScalarNode ''ab'' [] [], Node ScalarNode ''abc'' [] []]"
      "Node ScalarNode [] [] []"]
    comparisonFilter_all_pairs[of "\<lambda>x y. x < y" "\<lambda>n. int (length (Value n))"
      "Literal 2" "PathQuery At (\<lambda>n r. Content n)"
      "Node SequenceNode [] [] [Node ScalarNode ''ab'' [] [], Node ScalarNode ''abc'' [] []]"
      "Node ScalarNode [] [] []"]
    comparisonFilter_all_pairs[of "\<lambda>x y. x < y" "\<lambda>n. int (length (Value n))"
      "Literal 1" "PathQuery Root (\<lambda>n r. Content n)"
      "Node SequenceNode [] [] [Node ScalarNode ''ab'' [] [], Node ScalarNode ''abc'' [] []]"
      "Node ScalarNode [] [] []"]
  by simp

section \<open>Subscripts with step zero\<close>

lemma Split_nonempty: "Split s sep \<noteq> []"
  by (cases s) (auto split: list.splits)

lemma optInt_zero: "optInt ''0'' = Some (Some 0)"
  by (simp add: optInt_def parseDigits_def isDigit_def digitsValue_def digitValue_def)

lemma sliceRange_zero: "sliceRange a b (Some 0) L = Inl ''array index step value must be non-zero''"
  by (simp add: sliceRange_def)

lemma zero_step_member:
  assumes "CHR '':'' \<notin> set a" "CHR '':'' \<notin> set b"
  shows "\<exists>e. sliceMember (a @ '':'' @ b @ '':0'') L = Inl e"
proof -
  have sp: "Split (a @ '':'' @ b @ '':0'') CHR '':'' = [a, b, ''0'']"
    using assms by (simp add: Split_append)
  have ne: "a @ '':'' @ b @ '':0'' \<noteq> ''*''"
    by (cases a) auto
  show ?thesis
    unfolding sliceMember_def
    by (simp only: ne sp if_False list.case)
       (auto simp: optInt_zero sliceRange_zero split: option.splits)
qed

lemma zero_step_slice:
  assumes "CHR '':'' \<notin> set a" "CHR '':'' \<notin> set b" "CHR '','' \<notin> set a" "CHR '','' \<notin> set b"
  shows "\<exists>e. slice (a @ '':'' @ b @ '':0'') L = Inl e"
proof -
  have "Split (a @ '':'' @ b @ '':0'') CHR '','' = [a @ '':'' @ b @ '':0'']"
    using assms by (intro Split_no_sep) auto
  moreover obtain e where "sliceMember (a @ '':'' @ b @ '':0'') L = Inl e"
    using zero_step_member[OF assms(1,2)] by blast
  ultimately show ?thesis by (simp add: slice_def)
qed

lemma sliceRange_isl: "isl (sliceRange a b s L) = isl (sliceRange a b s L')"
  by (simp add: sliceRange_def Let_def)

lemma sliceMember_isl: "isl (sliceMember m L) = isl (sliceMember m L')"
  unfolding sliceMember_def
  by (auto simp: Let_def sliceRange_isl[of _ _ _ L L'] split: list.splits option.splits)

lemma unionAll_isl: "isl (unionAll rs) = (\<exists>r \<in> set rs. isl r)"
  by (induction rs rule: unionAll.induct) (auto split: sum.splits)

lemma slice_error_any_length: "isl (slice s L) = isl (slice s L')"
  using sliceMember_isl[of _ L L'] by (simp add: slice_def unionAll_isl)

lemma andThen_error: "andThen (None, Some m) build = (None, Some m)"
  by (simp add: andThen_def)

lemma filterLoop_reaches_error:
  assumes "ltyp e = lexemeError"
  shows "(\<exists>m. filterLoop (pre @ e # post) acc n = Inl m)
       \<or> (\<exists>fl pre'. filterLoop (pre @ e # post) acc n = Inr (fl, pre' @ e # post)
              \<and> set pre' \<subseteq> set pre \<and> length pre' < length pre)"
proof (induction pre arbitrary: acc n)
  case Nil
  show ?case using assms by simp
next
  case (Cons lx pre)
  have rec: "(\<exists>m. filterLoop (pre @ e # post) acc' n' = Inl m)
       \<or> (\<exists>fl pre'. filterLoop (pre @ e # post) acc' n' = Inr (fl, pre' @ e # post)
              \<and> set pre' \<subseteq> insert lx (set pre) \<and> length pre' < Suc (length pre))"
    for acc' n'
    using Cons[of acc' n'] by (auto intro: less_SucI)
  show ?case
  proof (cases "ltyp lx")
    case lexemeFilterEnd
    show ?thesis
    proof (cases "n - 1 = 0")
      case True
      then show ?thesis using lexemeFilterEnd by auto
    next
      case False
      then show ?thesis using lexemeFilterEnd rec by simp
    qed
  qed (use rec in simp_all)
qed

lemma newPath_reaches_error:
  assumes "ltyp e = lexemeError"
    and "\<forall>lx \<in> set pre. ltyp lx \<noteq> lexemeIdentity \<and> ltyp lx \<noteq> lexemeEOF"
  shows "\<exists>m. newPath nf sl (pre @ e # post) = (None, Some m)"
  using assms(2)
proof (induction "length pre" arbitrary: pre rule: less_induct)
  case less
  show ?case
  proof (cases pre)
    case Nil
    then show ?thesis using assms(1) by simp
  next
    case (Cons lx pre')
    have ok: "\<forall>lx \<in> set pre'. ltyp lx \<noteq> lexemeIdentity \<and> ltyp lx \<noteq> lexemeEOF"
      using less(2) Cons by simp
    obtain m where m: "newPath nf sl (pre' @ e # post) = (None, Some m)"
      using less(1)[of pre'] ok Cons by auto
    have filt: "\<exists>m. (case filterLoop (pre' @ e # post) [] 1 of
                 Inl err \<Rightarrow> (None, Some err)
               | Inr (filterLexemes, l') \<Rightarrow> andThen (newPath nf sl l') (build filterLexemes))
             = (None, Some m)" for build
    proof -
      consider (err) m where "filterLoop (pre' @ e # post) [] 1 = Inl m"
        | (more) fl pre'' where "filterLoop (pre' @ e # post) [] 1 = Inr (fl, pre'' @ e # post)"
            "set pre'' \<subseteq> set pre'" "length pre'' < length pre'"
        using filterLoop_reaches_error[OF assms(1), of pre' post "[]" 1] by blast
      then show ?thesis
      proof cases
        case err
        then show ?thesis by simp
      next
        case more
        obtain m' where "newPath nf sl (pre'' @ e # post) = (None, Some m')"
          using less(1)[of pre''] more(2,3) ok Cons by auto
        then show ?thesis using more(1) by (simp add: andThen_error)
      qed
    qed
    show ?thesis
    proof (cases "ltyp lx")
      case lexemeFilterBegin
      then show ?thesis using filt[of "\<lambda>fl. filterThen (nf fl)"] Cons by simp
    next
      case lexemeRecursiveFilterBegin
      then show ?thesis using filt[of "\<lambda>fl. recursiveFilterThen (nf fl)"] Cons by simp
    next
      case lexemeIdentity
      then show ?thesis using less(2) Cons by simp
    next
      case lexemeEOF
      then show ?thesis using less(2) Cons by simp
    qed (simp_all add: Cons m andThen_error)
  qed
qed

lemma flatten_no_slice_panic:
  "flatten xs = Inl (SlicePanic e) \<Longrightarrow> Inl (SlicePanic e) \<in> set xs"
  by (induction xs rule: flatten.induct) (auto split: sum.splits)

lemma collect_no_slice_panic:
  "collect rs = Inl (SlicePanic e) \<Longrightarrow> Inl (SlicePanic e) \<in> set rs"
  by (induction rs rule: collect.induct) (auto split: sum.splits)

lemma index_no_slice_panic: "index cs i \<noteq> Inl (SlicePanic e)"
  by (simp add: index_def)

lemma compose_no_slice_panic:
  "neverSlicePanics p \<Longrightarrow> compose ns p root \<noteq> Inl (SlicePanic e)"
  by (induction ns) (auto simp: neverSlicePanics_def split: sum.splits)

lemma neverSlicePanics_new:
  "(\<And>n root e. g n root \<noteq> Inl (SlicePanic e)) \<Longrightarrow> neverSlicePanics (new g)"
  by (simp add: neverSlicePanics_def callf_new)

lemma identity_never: "neverSlicePanics (new identity)"
  by (rule neverSlicePanics_new) (simp add: identity_def)

lemma flatten_compose_never:
  assumes "neverSlicePanics p"
  shows "flatten (map (\<lambda>x. compose (g x) p root) xs) \<noteq> Inl (SlicePanic e)"
proof
  assume "flatten (map (\<lambda>x. compose (g x) p root) xs) = Inl (SlicePanic e)"
  then have "Inl (SlicePanic e) \<in> set (map (\<lambda>x. compose (g x) p root) xs)"
    by (rule flatten_no_slice_panic)
  then obtain x where "compose (g x) p root = Inl (SlicePanic e)" by auto
  with compose_no_slice_panic[OF assms] show False by blast
qed

lemma flatten_range_never:
  assumes "neverSlicePanics p"
  shows "flatten (map (\<lambda>(i, n). compose (lift [n]) p root) xs) \<noteq> Inl (SlicePanic e)"
proof
  assume "flatten (map (\<lambda>(i, n). compose (lift [n]) p root) xs) = Inl (SlicePanic e)"
  then have "Inl (SlicePanic e) \<in> set (map (\<lambda>(i, n). compose (lift [n]) p root) xs)"
    by (rule flatten_no_slice_panic)
  then obtain n where "compose (lift [n]) p root = Inl (SlicePanic e)" by auto
  with compose_no_slice_panic[OF assms] show False by blast
qed

lemma collect_index_never:
  "collect (concat (map (\<lambda>childName. map (\<lambda>(i, n). index cs (g i)) (h childName)) names))
     \<noteq> Inl (SlicePanic e)"
proof
  assume "collect (concat (map (\<lambda>childName. map (\<lambda>(i, n). index cs (g i)) (h childName)) names))
     = Inl (SlicePanic e)"
  then have "Inl (SlicePanic e)
      \<in> set (concat (map (\<lambda>childName. map (\<lambda>(i, n). index cs (g i)) (h childName)) names))"
    by (rule collect_no_slice_panic)
  then show False by (auto simp: index_def split: if_splits)
qed

lemma allChildrenThen_never: "neverSlicePanics p \<Longrightarrow> neverSlicePanics (allChildrenThen p)"
  by (simp add: neverSlicePanics_def allChildrenThen_eval compose_no_slice_panic)

lemma childThen_never:
  assumes "neverSlicePanics p"
  shows "neverSlicePanics (childThen c p)"
proof (cases "c = ''*''")
  case True
  then show ?thesis using allChildrenThen_never[OF assms] by (simp add: childThen_def)
next
  case False
  then show ?thesis
    unfolding childThen_def Let_def
    by (auto intro!: neverSlicePanics_new
        simp: empty_seq_def index_no_slice_panic compose_no_slice_panic[OF assms]
        split: option.splits sum.splits if_splits dest: sym)
qed

lemma propertyNameChildThen_never:
  assumes "neverSlicePanics p"
  shows "neverSlicePanics (propertyNameChildThen c p)"
  unfolding propertyNameChildThen_def Let_def
  by (auto intro!: neverSlicePanics_new
      simp: empty_seq_def index_no_slice_panic compose_no_slice_panic[OF assms]
      split: option.splits sum.splits if_splits)

lemma bracketChildThen_never:
  assumes "neverSlicePanics p"
  shows "neverSlicePanics (bracketChildThen c p)"
  unfolding bracketChildThen_def Let_def
proof (rule neverSlicePanics_new)
  fix n root e
  let ?its = "collect (concat (map (\<lambda>childName.
                      map (\<lambda>(i, k). index (Content n) (i + 1))
                        (filter (\<lambda>(i, n). i mod 2 = 0 \<and> Value n = childName)
                           (range (Content n))))
                    (bracketChildNames c)))"
  have "?its \<noteq> Inl (SlicePanic e)"
    by (rule collect_index_never)
  then show "(if Kind n \<noteq> MappingNode then empty_seq n root
        else (case ?its of Inl e \<Rightarrow> Inl e | Inr its \<Rightarrow> compose its p root))
       \<noteq> Inl (SlicePanic e)"
    using compose_no_slice_panic[OF assms]
    by (cases ?its) (simp_all add: empty_seq_def)
qed

lemma propertyNameBracketChildThen_never:
  assumes "neverSlicePanics p"
  shows "neverSlicePanics (propertyNameBracketChildThen c p)"
  unfolding propertyNameBracketChildThen_def Let_def
proof (rule neverSlicePanics_new)
  fix n root e
  let ?its = "collect (concat (map (\<lambda>childName.
                      map (\<lambda>(i, k). index (Content n) i)
                        (filter (\<lambda>(i, n). i mod 2 = 0 \<and> Value n = childName)
                           (range (Content n))))
                    (bracketChildNames c)))"
  have "?its \<noteq> Inl (SlicePanic e)"
    by (rule collect_index_never)
  then show "(if Kind n \<noteq> MappingNode then empty_seq n root
        else (case ?its of Inl e \<Rightarrow> Inl e | Inr its \<Rightarrow> compose its p root))
       \<noteq> Inl (SlicePanic e)"
    using compose_no_slice_panic[OF assms]
    by (cases ?its) (simp_all add: empty_seq_def)
qed

lemma propertyNameArraySubscriptThen_never:
  assumes "neverSlicePanics p"
  shows "neverSlicePanics (propertyNameArraySubscriptThen c p)"
  unfolding propertyNameArraySubscriptThen_def
  by (rule neverSlicePanics_new) (simp add: empty_seq_def flatten_range_never[OF assms])

lemma filterThen_never:
  assumes "neverSlicePanics p"
  shows "neverSlicePanics (filterThen flt p)"
  unfolding filterThen_def
  by (rule neverSlicePanics_new)
     (simp add: flatten_compose_never[OF assms] flatten_single compose_no_slice_panic[OF assms]
        del: compose.simps)

lemma recursiveFilterThen_never:
  assumes "neverSlicePanics p"
  shows "neverSlicePanics (recursiveFilterThen flt p)"
  unfolding recursiveFilterThen_def
  by (rule neverSlicePanics_new)
     (simp add: flatten_single compose_no_slice_panic[OF assms] del: compose.simps)

lemma rootThen_never:
  assumes "neverSlicePanics p"
  shows "neverSlicePanics (rootThen p)"
  unfolding rootThen_def
  by (rule neverSlicePanics_new)
     (simp add: index_def compose_no_slice_panic[OF assms] del: compose.simps)

lemma recursiveDescentThen_never:
  assumes "neverSlicePanics p"
  shows "neverSlicePanics (recursiveDescentThen c p)"
  unfolding recursiveDescentThen_def
  using compose_no_slice_panic[OF assms] compose_no_slice_panic[OF allChildrenThen_never[OF assms]]
    compose_no_slice_panic[OF childThen_never[OF assms]]
  by (auto intro!: neverSlicePanics_new)

lemma arraySubscriptThen_never:
  assumes "neverSlicePanics p" and "\<And>L. \<not> isl (sl s L)"
  shows "neverSlicePanics (arraySubscriptThen sl s p)"
  unfolding arraySubscriptThen_def
proof (rule neverSlicePanics_new)
  fix n root e
  obtain ixs where ixs: "sl s (int (length (Content n))) = Inr ixs"
    using assms(2)[of "int (length (Content n))"] by (cases "sl s (int (length (Content n)))") auto
  show "(if Kind n = MappingNode \<and> s = ''*''
       then flatten (map (\<lambda>(i, n). compose (lift [n]) p root)
                      (filter (\<lambda>(i, n). \<not> i mod 2 = 0) (range (Content n))))
       else if Kind n \<noteq> SequenceNode then empty_seq n root
       else (case sl s (int (length (Content n))) of
               Inl err \<Rightarrow> Inl (SlicePanic err)
             | Inr js \<Rightarrow>
                 flatten (map (\<lambda>s. compose (lift [Content n ! nat s]) p root)
                           (filter (\<lambda>s. s \<ge> 0 \<and> s < int (length (Content n))) js))))
      \<noteq> Inl (SlicePanic e)"
    by (simp add: empty_seq_def ixs flatten_compose_never[OF assms(1)]
        flatten_range_never[OF assms(1)])
qed


lemma filterLoop_subset:
  "filterLoop l acc n = Inr (fl, rest) \<Longrightarrow> set rest \<subseteq> set l"
  by (induction l acc n rule: filterLoop.induct)
     (auto split: lexemeType.splits if_splits)

lemma validated_subset: "validated l \<Longrightarrow> set l' \<subseteq> set l \<Longrightarrow> validated l'"
  by (auto simp: validated_def list_all_iff)

lemma validated_ok:
  "validated l \<Longrightarrow>
   \<forall>lx \<in> set l. ltyp lx = lexemeArraySubscript
      \<longrightarrow> (\<forall>L. \<not> isl (slice (TrimSuffix (TrimPrefix (val lx) ''['') '']'') L))"
proof (intro ballI impI allI)
  fix lx L
  assume v: "validated l" and lx: "lx \<in> set l" "ltyp lx = lexemeArraySubscript"
  then have "lexArraySubscript (val lx) = lx"
    by (auto simp: validated_def list_all_iff)
  then have "\<not> isl (slice (TrimSuffix (TrimPrefix (val lx) ''['') '']'') 0)"
    using lx(2) by (auto simp: lexArraySubscript_def split: sum.splits)
  then show "\<not> isl (slice (TrimSuffix (TrimPrefix (val lx) ''['') '']'') L)"
    using slice_error_any_length[of _ L 0] by simp
qed

text \<open>
  A property of paths that the identity path has and every matcher hands on from the
  rest of the path holds of every compiled path. The matcher of an array subscript may
  rely on a condition \<open>ok\<close> that the subscripts of the ArraySubscript lexemes meet.
\<close>

lemma newPath_builds:
  fixes Q :: "Path option \<Rightarrow> bool" and ok :: "string \<Rightarrow> bool"
  assumes id: "Q (new identity)"
    and builders:
      "\<And>p. Q p \<Longrightarrow> Q (rootThen p)"
      "\<And>c p. Q p \<Longrightarrow> Q (recursiveDescentThen c p)"
      "\<And>c p. Q p \<Longrightarrow> Q (childThen c p)"
      "\<And>c p. Q p \<Longrightarrow> Q (bracketChildThen c p)"
      "\<And>flt p. Q p \<Longrightarrow> Q (filterThen flt p)"
      "\<And>flt p. Q p \<Longrightarrow> Q (recursiveFilterThen flt p)"
      "\<And>c p. Q p \<Longrightarrow> Q (propertyNameChildThen c p)"
      "\<And>c p. Q p \<Longrightarrow> Q (propertyNameBracketChildThen c p)"
      "\<And>c p. Q p \<Longrightarrow> Q (propertyNameArraySubscriptThen c p)"
    and subscript: "\<And>s p. Q p \<Longrightarrow> ok s \<Longrightarrow> Q (arraySubscriptThen slc s p)"
  shows "(\<forall>lx \<in> set l. ltyp lx = lexemeArraySubscript
            \<longrightarrow> ok (TrimSuffix (TrimPrefix (val lx) ''['') '']''))
         \<Longrightarrow> sl = slc \<Longrightarrow> newPath nf sl l = (Some P, None) \<Longrightarrow> Q (Some P)"
proof (induction nf sl l arbitrary: P rule: newPath.induct)
  case (1 nf sl)
  then show ?case using id by (simp add: new_def)
next
  case (2 nf sl lx l)
  have vl: "\<forall>lx \<in> set l. ltyp lx = lexemeArraySubscript
              \<longrightarrow> ok (TrimSuffix (TrimPrefix (val lx) ''['') '']'')"
    using "2.prems"(1) by simp
  have sub: "Q (Some q)" if "newPath nf sl l = (Some q, None)"
    and "ltyp lx \<in> {lexemeRoot, lexemeRecursiveDescent, lexemeDotChild, lexemeUndottedChild,
           lexemeBracketChild, lexemeArraySubscript, lexemePropertyName,
           lexemeBracketPropertyName, lexemeArraySubscriptPropertyName}" for q
    using that "2.IH" vl "2.prems"(2) by auto
  have step: "Q (Some P)"
    if "andThen (newPath nf sl l') build = (Some P, None)"
      and "\<And>q. newPath nf sl l' = (Some q, None) \<Longrightarrow> Q (Some q)"
      and "\<And>q. Q q \<Longrightarrow> Q (build q)" for l' build
  proof -
    have "definite (newPath nf sl l')" by (rule newPath_definite)
    then consider (path) q where "newPath nf sl l' = (Some q, None)"
      | (err) e where "newPath nf sl l' = (None, Some e)"
      unfolding definite_def by blast
    then show ?thesis
    proof cases
      case path
      then have "build (Some q) = Some P"
        using that(1) by (simp add: andThen_def)
      then show ?thesis
        using that(3)[OF that(2)[OF path]] by simp
    next
      case err
      then show ?thesis using that(1) by (simp add: andThen_def)
    qed
  qed
  have filt: "Q (Some P)"
    if ty: "ltyp lx = lexemeFilterBegin \<or> ltyp lx = lexemeRecursiveFilterBegin"
      and eq: "(case filterLoop l [] 1 of
                 Inl err \<Rightarrow> (None, Some err)
               | Inr (filterLexemes, l') \<Rightarrow> andThen (newPath nf sl l') (build filterLexemes))
              = (Some P, None)"
      and bs: "\<And>fl q. Q q \<Longrightarrow> Q (build fl q)"
    for build
  proof (cases "filterLoop l [] 1")
    case (Inl err)
    then show ?thesis using eq by simp
  next
    case (Inr pr)
    obtain fl l' where pr: "pr = (fl, l')" by (cases pr)
    have v': "\<forall>lx \<in> set l'. ltyp lx = lexemeArraySubscript
              \<longrightarrow> ok (TrimSuffix (TrimPrefix (val lx) ''['') '']'')"
      using filterLoop_subset[OF Inr[unfolded pr]] vl by blast
    have ih: "newPath nf sl l' = (Some q, None) \<Longrightarrow> Q (Some q)" for q
      using ty Inr pr v' "2.IH" "2.prems"(2) by blast
    have "andThen (newPath nf sl l') (build fl) = (Some P, None)"
      using eq Inr pr by simp
    then show ?thesis
      using ih bs by (rule step)
  qed
  show ?case
  proof (cases "ltyp lx")
    case lexemeFilterBegin
    then show ?thesis
      using filt[of "\<lambda>fl. filterThen (nf fl)"] "2.prems"(3) builders(5) by simp
  next
    case lexemeRecursiveFilterBegin
    then show ?thesis
      using filt[of "\<lambda>fl. recursiveFilterThen (nf fl)"] "2.prems"(3) builders(6) by simp
  next
    case lexemeArraySubscript
    then have "andThen (newPath nf sl l)
            (arraySubscriptThen sl (TrimSuffix (TrimPrefix (val lx) ''['') '']'')) = (Some P, None)"
      using "2.prems"(3) by simp
    moreover have "ok (TrimSuffix (TrimPrefix (val lx) ''['') '']'')"
      using "2.prems"(1) lexemeArraySubscript by simp
    ultimately show ?thesis
      using sub lexemeArraySubscript subscript "2.prems"(2) by (elim step) auto
  qed (use "2.prems"(3) sub id in
      \<open>auto simp: new_def elim!: step intro: builders\<close>)
qed

lemma newPath_never_slice_panics:
  assumes "validated l" and "sl = slice" and "newPath nf sl l = (Some P, None)"
  shows "neverSlicePanics (Some P)"
  using identity_never rootThen_never recursiveDescentThen_never childThen_never
    bracketChildThen_never filterThen_never recursiveFilterThen_never
    propertyNameChildThen_never propertyNameBracketChildThen_never
    propertyNameArraySubscriptThen_never _ validated_ok[OF assms(1)] assms(2,3)
proof (rule newPath_builds[where Q = neverSlicePanics and slc = slice
      and ok = "\<lambda>s. \<forall>L. \<not> isl (slice s L)"])
  show "neverSlicePanics (arraySubscriptThen slice s p)"
    if "neverSlicePanics p" "\<forall>L. \<not> isl (slice s L)" for s p
    using that by (intro arraySubscriptThen_never) auto
qed

lemma trim_brackets: "TrimSuffix (TrimPrefix (''['' @ s @ '']'') ''['') '']'' = s"
  by (simp add: TrimPrefix_def TrimSuffix_def HasPrefix_def HasSuffix_def)

lemma zero_step_lexeme:
  assumes "CHR '':'' \<notin> set a" "CHR '':'' \<notin> set b" "CHR '','' \<notin> set a" "CHR '','' \<notin> set b"
  shows "ltyp (lexArraySubscript (''['' @ (a @ '':'' @ b @ '':0'') @ '']'')) = lexemeError"
proof -
  obtain e where "slice (a @ '':'' @ b @ '':0'') 0 = Inl e"
    using zero_step_slice[OF assms] by blast
  then show ?thesis
    unfolding lexArraySubscript_def trim_brackets by simp
qed

lemma zero_step_not_validated:
  assumes "CHR '':'' \<notin> set a" "CHR '':'' \<notin> set b" "CHR '','' \<notin> set a" "CHR '','' \<notin> set b"
    and "validated l"
  shows "Lexeme lexemeArraySubscript (''['' @ (a @ '':'' @ b @ '':0'') @ '']'') \<notin> set l"
proof
  let ?lx = "Lexeme lexemeArraySubscript (''['' @ (a @ '':'' @ b @ '':0'') @ '']'')"
  assume "?lx \<in> set l"
  then have "lexArraySubscript (val ?lx) = ?lx"
    using assms(5) by (auto simp: validated_def list_all_iff)
  then have "ltyp (lexArraySubscript (''['' @ (a @ '':'' @ b @ '':0'') @ '']'')) = lexemeArraySubscript"
    by simp
  then show False using zero_step_lexeme[OF assms(1-4)] by simp
qed

text \<open>
  C8. Let \<open>a\<close> and \<open>b\<close> be texts without colon and comma. The slice parser rejects
  \<open>a:b:0\<close> for every length, so the lexer emits an Error lexeme for the bracket
  \<open>[a:b:0]\<close>, and the compiler returns an error for every run of the lexer in which it
  reaches that lexeme, in particular for the path \<open>$[1:2:0]\<close>. A validated run holds no
  ArraySubscript lexeme with such a subscript, and a path compiled from a validated run
  never ends in the panic on an error of the slice parser.
\<close>

theorem zero_step_slice_rejected:
  assumes "CHR '':'' \<notin> set a" "CHR '':'' \<notin> set b" "CHR '','' \<notin> set a" "CHR '','' \<notin> set b"
  shows "(\<exists>e. slice (a @ '':'' @ b @ '':0'') L = Inl e)
    \<and> ltyp (lexArraySubscript (''['' @ (a @ '':'' @ b @ '':0'') @ '']'')) = lexemeError
    \<and> ((\<forall>lx \<in> set pre. ltyp lx \<noteq> lexemeIdentity \<and> ltyp lx \<noteq> lexemeEOF) \<longrightarrow>
         (\<exists>m. newPath nf slice
                 (pre @ lexArraySubscript (''['' @ (a @ '':'' @ b @ '':0'') @ '']'') # post)
               = (None, Some m)))
    \<and> (\<exists>m. newPath nf slice [Lexeme lexemeRoot ''$'', lexArraySubscript ''[1:2:0]'']
              = (None, Some m))
    \<and> (validated l \<longrightarrow>
         Lexeme lexemeArraySubscript (''['' @ (a @ '':'' @ b @ '':0'') @ '']'') \<notin> set l
         \<and> (\<forall>P. newPath nf slice l = (Some P, None) \<longrightarrow>
               (\<forall>n e. Find (Some P) n \<noteq> Inl (SlicePanic e))))"
proof -
  let ?t = "''['' @ (a @ '':'' @ b @ '':0'') @ '']''"
  have lexerr: "ltyp (lexArraySubscript ?t) = lexemeError"
    by (rule zero_step_lexeme[OF assms])
  have one: "ltyp (lexArraySubscript ''[1:2:0]'') = lexemeError"
    using zero_step_lexeme[of "''1''" "''2''"] by simp
  have root: "\<forall>lx \<in> set [Lexeme lexemeRoot ''$'']. ltyp lx \<noteq> lexemeIdentity \<and> ltyp lx \<noteq> lexemeEOF"
    by simp
  have c4: "\<exists>m. newPath nf slice [Lexeme lexemeRoot ''$'', lexArraySubscript ''[1:2:0]'']
              = (None, Some m)"
    using newPath_reaches_error[OF one root, of nf slice "[]"] by simp
  have c5: "\<forall>n e. Find (Some P) n \<noteq> Inl (SlicePanic e)"
    if "validated l" "newPath nf slice l = (Some P, None)" for P
    using newPath_never_slice_panics[OF that(1) refl that(2)]
    by (auto simp: neverSlicePanics_def Find_def find_nodes_def split: sum.splits)
  have c3: "(\<forall>lx \<in> set pre. ltyp lx \<noteq> lexemeIdentity \<and> ltyp lx \<noteq> lexemeEOF) \<longrightarrow>
         (\<exists>m. newPath nf slice (pre @ lexArraySubscript ?t # post) = (None, Some m))"
    using newPath_reaches_error[OF lexerr, of pre nf slice post] by (rule impI)
  have c6: "validated l \<longrightarrow>
         Lexeme lexemeArraySubscript ?t \<notin> set l
         \<and> (\<forall>P. newPath nf slice l = (Some P, None) \<longrightarrow>
               (\<forall>n e. Find (Some P) n \<noteq> Inl (SlicePanic e)))"
    using c5 zero_step_not_validated[OF assms, of l] by (intro impI conjI allI) auto
  from zero_step_slice[OF assms, of L] lexerr c3 c4 c6
  show ?thesis by (intro conjI)
qed

theorem zero_step_slice_rejected_witness:
  "(\<exists>e. slice ''1:2:0'' 5 = Inl e)
   \<and> ltyp (lexArraySubscript ''[1:2:0]'') = lexemeError
   \<and> (\<exists>m. newPath (\<lambda>ls n r. True) slice [Lexeme lexemeRoot ''$'', lexArraySubscript ''[1:2:0]'']
             = (None, Some m))
   \<and> (\<exists>P. newPath (\<lambda>ls n r. True) slice [Lexeme lexemeRoot ''$'', lexArraySubscript ''[0:2]'']
             = (Some P, None)
          \<and> (\<forall>n e. Find (Some P) n \<noteq> Inl (SlicePanic e)))"
proof -
  let ?nf = "\<lambda>(ls :: lexeme list) (n :: node) (r :: node). True"
  let ?l = "[Lexeme lexemeRoot ''$'', lexArraySubscript ''[0:2]'']"
  have s0: "slice ''0:2'' 0 = Inr []"
    by code_simp
  have lx: "lexArraySubscript ''[0:2]'' = Lexeme lexemeArraySubscript ''[0:2]''"
    using s0 trim_brackets[of "''0:2''"] by (simp add: lexArraySubscript_def)
  have v: "validated ?l"
    by (simp add: validated_def lx)
  obtain P where P: "newPath ?nf slice ?l = (Some P, None)"
    by (simp add: lx andThen_def rootThen_def arraySubscriptThen_def new_def)
  have h: "CHR '':'' \<notin> set ''1''" "CHR '':'' \<notin> set ''2''" "CHR '','' \<notin> set ''1''" "CHR '','' \<notin> set ''2''"
    by simp_all
  note t = zero_step_slice_rejected[OF h, of 5 "[Lexeme lexemeRoot ''$'']" ?nf "[]" ?l]
  from t[THEN conjunct1] have a: "\<exists>e. slice ''1:2:0'' 5 = Inl e" by simp
  from t[THEN conjunct2, THEN conjunct1]
  have b: "ltyp (lexArraySubscript ''[1:2:0]'') = lexemeError" by simp
  note c = t[THEN conjunct2, THEN conjunct2, THEN conjunct2, THEN conjunct1]
  from t[THEN conjunct2, THEN conjunct2, THEN conjunct2, THEN conjunct2, rule_format, OF v]
  have "\<forall>P. newPath ?nf slice ?l = (Some P, None) \<longrightarrow>
               (\<forall>n e. Find (Some P) n \<noteq> Inl (SlicePanic e))"
    by (rule conjunct2)
  with P have d: "\<forall>n e. Find (Some P) n \<noteq> Inl (SlicePanic e)" by blast
  from P d have e: "\<exists>P. newPath ?nf slice ?l = (Some P, None)
          \<and> (\<forall>n e. Find (Some P) n \<noteq> Inl (SlicePanic e))" by blast
  from a b c e show ?thesis by (intro conjI)
qed

section \<open>Where evaluation returns and where it panics\<close>

lemma wellFormed_Content: "wellFormed n \<Longrightarrow> list_all wellFormed (Content n)"
  by (cases n) simp

lemma wellFormed_Document: "wellFormed n \<Longrightarrow> Kind n = DocumentNode \<Longrightarrow> Content n \<noteq> []"
  by (cases n) simp

lemma wellFormed_Mapping: "wellFormed n \<Longrightarrow> Kind n = MappingNode \<Longrightarrow> even (length (Content n))"
  by (cases n) simp

lemma wellFormed_recurse: "list_all wellFormed ns \<Longrightarrow> list_all wellFormed (recurse ns)"
  by (induction ns rule: recurse.induct) simp_all

lemma compose_returns:
  "returns p \<Longrightarrow> list_all wellFormed xs
   \<Longrightarrow> \<exists>ns. compose xs p root = Inr ns \<and> list_all wellFormed ns"
proof (induction xs)
  case Nil
  show ?case by simp
next
  case (Cons a xs)
  then have "wellFormed a" by simp
  with Cons(2) obtain ns where "callf p a root = Inr ns" "list_all wellFormed ns"
    unfolding returns_def by blast
  moreover obtain ms where "compose xs p root = Inr ms" "list_all wellFormed ms"
    using Cons by auto
  ultimately show ?case by simp
qed

lemma returns_new:
  "(\<And>n root. wellFormed n \<Longrightarrow> \<exists>ns. g n root = Inr ns \<and> list_all wellFormed ns)
   \<Longrightarrow> returns (new g)"
  by (simp add: returns_def callf_new)

lemma identity_returns: "returns (new identity)"
  by (rule returns_new) (simp add: identity_def lift_def)

lemma keyNodes_valueNodes_subset: "set (keyNodes cs) \<subseteq> set cs \<and> set (valueNodes cs) \<subseteq> set cs"
  by (induction cs) auto

lemma wellFormed_keys_values:
  "list_all wellFormed cs \<Longrightarrow> list_all wellFormed (keyNodes cs) \<and> list_all wellFormed (valueNodes cs)"
  using keyNodes_valueNodes_subset[of cs] by (auto simp: list_all_iff)

lemma wellFormed_childrenOf: "wellFormed n \<Longrightarrow> list_all wellFormed (childrenOf n)"
  using wellFormed_keys_values[OF wellFormed_Content, of n] wellFormed_Content[of n]
  by (cases "Kind n") (simp_all add: childrenOf_def)

lemma allChildrenThen_returns: "returns p \<Longrightarrow> returns (allChildrenThen p)"
  unfolding returns_def[of "allChildrenThen p"] allChildrenThen_eval
  using compose_returns wellFormed_childrenOf by blast

lemma flatten_returns:
  "(\<And>x. x \<in> set xs \<Longrightarrow> \<exists>ns. x = Inr ns \<and> list_all wellFormed ns)
   \<Longrightarrow> \<exists>ns. flatten xs = Inr ns \<and> list_all wellFormed ns"
proof (induction xs)
  case Nil
  show ?case by simp
next
  case (Cons x xs)
  obtain ns where "x = Inr ns" "list_all wellFormed ns"
    using Cons(2)[of x] by auto
  moreover obtain ms where "flatten xs = Inr ms" "list_all wellFormed ms"
    using Cons by auto
  ultimately show ?case by simp
qed

lemma compose_one_returns:
  "returns p \<Longrightarrow> wellFormed c \<Longrightarrow> \<exists>ns. compose (lift [c]) p root = Inr ns \<and> list_all wellFormed ns"
  using compose_returns[of p "[c]" root] by (simp add: lift_def del: compose.simps)

lemma find_range:
  "find P (range cs) = Some (i, k) \<Longrightarrow> i < length cs \<and> cs ! i = k \<and> P (i, k)"
  by (auto simp: range_def find_Some_iff nth_enumerate_eq)

lemma childThen_returns:
  assumes "returns p"
  shows "returns (childThen c p)"
proof (cases "c = ''*''")
  case True
  then show ?thesis using allChildrenThen_returns[OF assms] by (simp add: childThen_def)
next
  case False
  have "\<exists>ns. (if Kind n \<noteq> MappingNode then empty_seq n root
          else (case find (\<lambda>(i, k). i mod 2 = 0 \<and> Value k = unescape c) (range (Content n)) of
                  Some (i, k) \<Rightarrow>
                    (case index (Content n) (i + 1) of
                       Inl e \<Rightarrow> Inl e
                     | Inr c \<Rightarrow> compose (lift [c]) p root)
                | None \<Rightarrow> empty_seq n root)) = Inr ns \<and> list_all wellFormed ns"
    if wf: "wellFormed n" for n root
  proof (cases "Kind n = MappingNode")
    case False
    then show ?thesis by (simp add: empty_seq_def lift_def)
  next
    case True
    show ?thesis
    proof (cases "find (\<lambda>(i, k). i mod 2 = 0 \<and> Value k = unescape c) (range (Content n))")
      case None
      then show ?thesis using True by (simp add: empty_seq_def lift_def)
    next
      case (Some ik)
      obtain i k where ik: "ik = (i, k)" by (cases ik)
      have i: "i < length (Content n)" "i mod 2 = 0"
        using find_range[OF Some[unfolded ik]] by auto
      have "even (length (Content n))" using wf True by (rule wellFormed_Mapping)
      with i have lt: "i + 1 < length (Content n)" by presburger
      then have "wellFormed (Content n ! (i + 1))"
        using wellFormed_Content[OF wf] by (simp add: list_all_length)
      then show ?thesis
        using True Some ik lt compose_one_returns[OF assms] by (simp add: index_def)
    qed
  qed
  then show ?thesis
    using False unfolding childThen_def Let_def by (simp add: returns_new)
qed

lemma propertyNameChildThen_returns:
  assumes "returns p"
  shows "returns (propertyNameChildThen c p)"
  unfolding propertyNameChildThen_def Let_def
proof (rule returns_new)
  fix n root
  assume wf: "wellFormed n"
  show "\<exists>ns. (if Kind n \<noteq> MappingNode then empty_seq n root
          else (case find (\<lambda>(i, k). i mod 2 = 0 \<and> Value k = unescape c) (range (Content n)) of
                  Some (i, k) \<Rightarrow>
                    (case index (Content n) i of
                       Inl e \<Rightarrow> Inl e
                     | Inr c \<Rightarrow> compose (lift [c]) p root)
                | None \<Rightarrow> empty_seq n root)) = Inr ns \<and> list_all wellFormed ns"
  proof (cases "find (\<lambda>(i, k). i mod 2 = 0 \<and> Value k = unescape c) (range (Content n))")
    case None
    then show ?thesis by (simp add: empty_seq_def lift_def)
  next
    case (Some ik)
    obtain i k where ik: "ik = (i, k)" by (cases ik)
    have i: "i < length (Content n)"
      using find_range[OF Some[unfolded ik]] by auto
    then have "wellFormed (Content n ! i)"
      using wellFormed_Content[OF wf] by (simp add: list_all_length)
    then show ?thesis
      using Some ik i compose_one_returns[OF assms] by (simp add: index_def empty_seq_def lift_Nil)
  qed
qed

lemma valuesFor_subset: "set (valuesFor name cs) \<subseteq> set cs"
proof -
  have "snd ` set (pairs cs) \<subseteq> set cs"
    by (induction cs rule: pairs.induct) auto
  then show ?thesis by (auto simp: valuesFor_def)
qed

lemma bracketChildThen_returns:
  assumes "returns p"
  shows "returns (bracketChildThen c p)"
  unfolding bracketChildThen_def Let_def
proof (rule returns_new)
  fix n root
  assume wf: "wellFormed n"
  let ?vs = "concat (map (\<lambda>name. valuesFor name (Content n)) (bracketChildNames c))"
  have "list_all wellFormed ?vs"
    using wellFormed_Content[OF wf] valuesFor_subset[of _ "Content n"]
    by (auto simp: list_all_iff)
  then have r: "\<exists>ns. compose ?vs p root = Inr ns \<and> list_all wellFormed ns"
    by (rule compose_returns[OF assms])
  show "\<exists>ns. (if Kind n \<noteq> MappingNode then empty_seq n root
        else (case collect (concat (map (\<lambda>childName.
                      map (\<lambda>(i, k). index (Content n) (i + 1))
                        (filter (\<lambda>(i, k). i mod 2 = 0 \<and> Value k = childName)
                           (range (Content n))))
                    (bracketChildNames c))) of
                Inl e \<Rightarrow> Inl e
              | Inr its \<Rightarrow> compose its p root)) = Inr ns \<and> list_all wellFormed ns"
  proof (cases "Kind n = MappingNode")
    case False
    then show ?thesis by (simp add: empty_seq_def lift_def)
  next
    case True
    have "even (length (Content n))" using wf True by (rule wellFormed_Mapping)
    then show ?thesis
      using True r by (simp only: bracket_values) simp
  qed
qed

lemma index_range_enumerate:
  "map (\<lambda>(i, k). index cs i) (filter P (range cs)) = map Inr (map snd (filter P (range cs)))"
proof -
  have "index cs i = Inr k" if "(i, k) \<in> set (range cs)" for i k
    using that by (auto simp: range_def in_set_enumerate_eq index_def)
  then show ?thesis by (auto simp: map_eq_conv)
qed

lemma propertyNameBracketChildThen_returns:
  assumes "returns p"
  shows "returns (propertyNameBracketChildThen c p)"
  unfolding propertyNameBracketChildThen_def Let_def
proof (rule returns_new)
  fix n root
  assume wf: "wellFormed n"
  let ?ks = "concat (map (\<lambda>childName.
               map snd (filter (\<lambda>(i, k). i mod 2 = 0 \<and> Value k = childName) (range (Content n))))
             (bracketChildNames c))"
  have eq: "concat (map (\<lambda>childName.
                      map (\<lambda>(i, k). index (Content n) i)
                        (filter (\<lambda>(i, k). i mod 2 = 0 \<and> Value k = childName)
                           (range (Content n))))
                    (bracketChildNames c)) = map Inr ?ks"
    unfolding index_range_enumerate by (simp add: map_concat comp_def)
  have "\<forall>k \<in> set ?ks. k \<in> set (Content n)"
    by (auto simp: range_def in_set_enumerate_eq)
  then have "list_all wellFormed ?ks"
    using wellFormed_Content[OF wf] unfolding list_all_iff by blast
  then have r: "\<exists>ns. compose ?ks p root = Inr ns \<and> list_all wellFormed ns"
    by (rule compose_returns[OF assms])
  show "\<exists>ns. (if Kind n \<noteq> MappingNode then empty_seq n root
        else (case collect (concat (map (\<lambda>childName.
                      map (\<lambda>(i, k). index (Content n) i)
                        (filter (\<lambda>(i, k). i mod 2 = 0 \<and> Value k = childName)
                           (range (Content n))))
                    (bracketChildNames c))) of
                Inl e \<Rightarrow> Inl e
              | Inr its \<Rightarrow> compose its p root)) = Inr ns \<and> list_all wellFormed ns"
    using r unfolding eq collect_map_Inr by (simp add: empty_seq_def lift_def)
qed

lemma flatten_compose_returns:
  assumes "returns p" and "\<And>x. x \<in> set xs \<Longrightarrow> list_all wellFormed (g x)"
  shows "\<exists>ns. flatten (map (\<lambda>x. compose (g x) p root) xs) = Inr ns \<and> list_all wellFormed ns"
proof (rule flatten_returns)
  fix r
  assume "r \<in> set (map (\<lambda>x. compose (g x) p root) xs)"
  then obtain x where "x \<in> set xs" "r = compose (g x) p root" by auto
  then show "\<exists>ns. r = Inr ns \<and> list_all wellFormed ns"
    using compose_returns[OF assms(1) assms(2)] by simp
qed

lemma propertyNameArraySubscriptThen_returns:
  assumes "returns p"
  shows "returns (propertyNameArraySubscriptThen c p)"
  unfolding propertyNameArraySubscriptThen_def
proof (rule returns_new)
  fix n root
  assume wf: "wellFormed n"
  have "list_all wellFormed (keyNodes (Content n))"
    using wellFormed_keys_values[OF wellFormed_Content[OF wf]] by simp
  then have "\<exists>ns. compose (keyNodes (Content n)) p root = Inr ns \<and> list_all wellFormed ns"
    by (rule compose_returns[OF assms])
  then show "\<exists>ns. (if Kind n = MappingNode \<and> c = ''*''
       then flatten (map (\<lambda>(i, n). compose (lift [n]) p root)
                      (filter (\<lambda>(i, n). \<not> i mod 2 \<noteq> 0) (range (Content n))))
       else empty_seq n root) = Inr ns \<and> list_all wellFormed ns"
    by (simp add: flatten_range_keys empty_seq_def lift_Nil)
qed

lemma filterThen_returns:
  assumes "returns p"
  shows "returns (filterThen flt p)"
  unfolding filterThen_def
proof (rule returns_new)
  fix n root
  assume wf: "wellFormed n"
  have a: "\<exists>ns. compose (filter (\<lambda>c. flt c root) (Content n)) p root = Inr ns
             \<and> list_all wellFormed ns"
    using wellFormed_Content[OF wf] by (intro compose_returns[OF assms]) (simp add: list_all_iff)
  have b: "\<exists>ns. callf p n root = Inr ns \<and> list_all wellFormed ns"
    using assms wf by (simp add: returns_def)
  show "\<exists>ns. (if Kind n = SequenceNode
       then flatten (map (\<lambda>c. compose (lift [c]) p root)
                      (filter (\<lambda>c. flt c root) (Content n)))
       else flatten (if flt n root then [compose (lift [n]) p root] else []))
      = Inr ns \<and> list_all wellFormed ns"
    using a b
    by (simp add: lift_def flatten_map_callf flatten_single compose_single del: compose.simps)
qed

lemma recursiveFilterThen_returns:
  assumes "returns p"
  shows "returns (recursiveFilterThen flt p)"
  unfolding recursiveFilterThen_def
proof (rule returns_new)
  fix n root
  assume wf: "wellFormed n"
  have b: "\<exists>ns. callf p n root = Inr ns \<and> list_all wellFormed ns"
    using assms wf by (simp add: returns_def)
  show "\<exists>ns. flatten (if flt n root then [compose (lift [n]) p root] else [])
      = Inr ns \<and> list_all wellFormed ns"
    using b by (simp add: lift_def flatten_single compose_single del: compose.simps)
qed

lemma rootThen_returns:
  assumes "returns p"
  shows "returns (rootThen p)"
  unfolding rootThen_def
proof (rule returns_new)
  fix n root
  assume wf: "wellFormed n"
  have b: "\<exists>ns. callf p n root = Inr ns \<and> list_all wellFormed ns"
    using assms wf by (simp add: returns_def)
  have c: "\<exists>ns. callf p (Content n ! 0) root = Inr ns \<and> list_all wellFormed ns"
    if "Kind n = DocumentNode"
  proof -
    have "Content n \<noteq> []" using wf that by (rule wellFormed_Document)
    then have "wellFormed (Content n ! 0)"
      using wellFormed_Content[OF wf] by (simp add: list_all_length)
    then show ?thesis using assms by (simp add: returns_def)
  qed
  show "\<exists>ns. (if Kind n = DocumentNode
       then (case index (Content n) 0 of
               Inl e \<Rightarrow> Inl e
             | Inr node' \<Rightarrow> compose (lift [node']) p root)
       else compose (lift [n]) p root) = Inr ns \<and> list_all wellFormed ns"
    using b c wellFormed_Document[OF wf]
    by (simp add: lift_def index_def compose_single del: compose.simps)
qed

lemma recursiveDescentThen_returns:
  assumes "returns p"
  shows "returns (recursiveDescentThen c p)"
proof -
  have "\<exists>ns. compose (recurse [n]) q root = Inr ns \<and> list_all wellFormed ns"
    if "returns q" "wellFormed n" for q n root
    using that wellFormed_recurse[of "[n]"] by (intro compose_returns) simp_all
  then show ?thesis
    using assms allChildrenThen_returns[OF assms] childThen_returns[OF assms]
    unfolding recursiveDescentThen_def by (auto intro!: returns_new)
qed

lemma arraySubscriptThen_returns:
  assumes "returns p" and "\<And>L. \<not> isl (sl s L)"
  shows "returns (arraySubscriptThen sl s p)"
  unfolding arraySubscriptThen_def
proof (rule returns_new)
  fix n root
  assume wf: "wellFormed n"
  obtain ixs where ixs: "sl s (int (length (Content n))) = Inr ixs"
    using assms(2)[of "int (length (Content n))"] by (cases "sl s (int (length (Content n)))") auto
  have a: "\<exists>ns. compose (valueNodes (Content n)) p root = Inr ns \<and> list_all wellFormed ns"
    using wellFormed_keys_values[OF wellFormed_Content[OF wf]]
    by (intro compose_returns[OF assms(1)]) simp
  have b: "\<exists>ns. flatten (map (\<lambda>j. compose (lift [Content n ! nat j]) p root)
                      (filter (\<lambda>j. j \<ge> 0 \<and> j < int (length (Content n))) ixs)) = Inr ns
             \<and> list_all wellFormed ns"
  proof (rule flatten_compose_returns[OF assms(1)])
    fix j
    assume "j \<in> set (filter (\<lambda>j. j \<ge> 0 \<and> j < int (length (Content n))) ixs)"
    then have "nat j < length (Content n)" by auto
    then show "list_all wellFormed (lift [Content n ! nat j])"
      using wellFormed_Content[OF wf] by (simp add: lift_def list_all_length)
  qed
  show "\<exists>ns. (if Kind n = MappingNode \<and> s = ''*''
       then flatten (map (\<lambda>(i, n). compose (lift [n]) p root)
                      (filter (\<lambda>(i, n). \<not> i mod 2 = 0) (range (Content n))))
       else if Kind n \<noteq> SequenceNode then empty_seq n root
       else (case sl s (int (length (Content n))) of
               Inl err \<Rightarrow> Inl (SlicePanic err)
             | Inr js \<Rightarrow>
                 flatten (map (\<lambda>s. compose (lift [Content n ! nat s]) p root)
                           (filter (\<lambda>s. s \<ge> 0 \<and> s < int (length (Content n))) js))))
      = Inr ns \<and> list_all wellFormed ns"
    using a b
    by (simp only: flatten_range_values ixs sum.case empty_seq_def lift_Nil split: if_splits) simp
qed

lemma newPath_returns:
  assumes "validated l" and "newPath nf slice l = (Some P, None)"
  shows "returns (Some P)"
  using identity_returns rootThen_returns recursiveDescentThen_returns childThen_returns
    bracketChildThen_returns filterThen_returns recursiveFilterThen_returns
    propertyNameChildThen_returns propertyNameBracketChildThen_returns
    propertyNameArraySubscriptThen_returns _ validated_ok[OF assms(1)] refl assms(2)
proof (rule newPath_builds[where Q = returns and slc = slice
      and ok = "\<lambda>s. \<forall>L. \<not> isl (slice s L)"])
  show "returns (arraySubscriptThen slice s p)" if "returns p" "\<forall>L. \<not> isl (slice s L)" for s p
    using that by (intro arraySubscriptThen_returns) auto
qed

text \<open>
  On a well-formed tree, a path compiled from validated lexemes with the slice parser of
  the spec returns: \<open>Find\<close> ends without panic, with a list of nodes and no error.
\<close>

lemma Find_returns_on_well_formed:
  assumes "validated l" and "newPath nf slice l = (Some P, None)" and "wellFormed n"
  shows "\<exists>ns. Find (Some P) n = Inr (ns, None) \<and> list_all wellFormed ns"
proof -
  obtain ns where "callf (Some P) n n = Inr ns" "list_all wellFormed ns"
    using newPath_returns[OF assms(1,2)] assms(3) unfolding returns_def by blast
  then show ?thesis by (simp add: Find_def find_nodes_def)
qed

text \<open>
  C1. \<open>Find\<close> is not total: the path \<open>$\<close>, compiled from the single lexeme the
  lexer emits for it, applied to a Document node whose \<open>Content\<close> is empty reads
  \<open>Content[0]\<close> and panics with an index out of range. The path \<open>.a\<close> panics in the
  same way on a Mapping node whose only child is the key \<open>a\<close>, where \<open>childThen\<close>
  reads the child after the key.
\<close>

theorem Find_root_empty_document_panics:
  "Find (fst (newPath nf sl [Lexeme lexemeRoot ''$''])) (Node DocumentNode [] [] [])
     = Inl IndexOutOfRange
   \<and> Find (fst (newPath nf sl [Lexeme lexemeDotChild ''.a'']))
       (Node MappingNode [] [] [Node ScalarNode ''a'' [] []])
     = Inl IndexOutOfRange"
  by (simp add: andThen_def rootThen_def childThen_def new_def Find_def find_nodes_def callf_def
      index_def range_def TrimPrefix_def HasPrefix_def unescape_def backslash_def)

end
